theory Spec2Isabelle
  imports Complex_Main "HOL-Library.AList"
begin

section \<open>Python values and containers\<close>

text \<open>
  The engine of \<^verbatim>\<open>src/ADBMS/kk.py\<close> stores attribute values of four Python kinds.
  A finite float is a rational number; what Python prints for a float and how it reads
  one from text are not part of the repository, so they are parameters
  (record \<open>runtime\<close> below), as is the regular-expression library.
  Strings are byte strings: \<open>lower\<close>, \<open>upper\<close> and \<open>strip\<close> act on ASCII.
\<close>

datatype pyval = VStr string | VInt int | VFloat rat | VBool bool

datatype error = ValueError | KeyError | TypeError

record runtime =
  float_str :: "rat \<Rightarrow> string"
  float_parse :: "string \<Rightarrow> rat option"
  re_search :: "string \<Rightarrow> string \<Rightarrow> bool"
  re_compiles :: "string \<Rightarrow> bool"

text \<open>\<open>isinstance(v, (int, float))\<close>: in Python \<open>bool\<close> is a subclass of \<open>int\<close>.\<close>

fun is_int_or_float :: "pyval \<Rightarrow> bool" where
  "is_int_or_float (VStr s) = False"
| "is_int_or_float (VInt i) = True"
| "is_int_or_float (VFloat r) = True"
| "is_int_or_float (VBool b) = True"

text \<open>The number a numeric value stands for (\<open>True\<close> is 1, \<open>False\<close> is 0).\<close>

fun num_of :: "pyval \<Rightarrow> rat" where
  "num_of (VStr s) = 0"
| "num_of (VInt i) = of_int i"
| "num_of (VFloat r) = r"
| "num_of (VBool b) = (if b then 1 else 0)"

text \<open>Python's \<open>==\<close> on the four kinds: numbers compare by value, strings by content.\<close>

fun py_eq :: "pyval \<Rightarrow> pyval \<Rightarrow> bool" where
  "py_eq (VStr s) (VStr t) = (s = t)"
| "py_eq (VStr s) w = False"
| "py_eq v (VStr t) = False"
| "py_eq v w = (num_of v = num_of w)"

fun digit_char :: "nat \<Rightarrow> char" where
  "digit_char n = (''0123456789'' ! (n mod 10))"

fun nat_str :: "nat \<Rightarrow> string" where
  "nat_str n = (if n < 10 then [digit_char n] else nat_str (n div 10) @ [digit_char n])"

definition int_str :: "int \<Rightarrow> string" where
  "int_str i = (if i < 0 then CHR ''-'' # nat_str (nat (- i)) else nat_str (nat i))"

text \<open>\<open>str(v)\<close>.\<close>

fun py_str :: "runtime \<Rightarrow> pyval \<Rightarrow> string" where
  "py_str R (VStr s) = s"
| "py_str R (VInt i) = int_str i"
| "py_str R (VFloat r) = float_str R r"
| "py_str R (VBool b) = (if b then ''True'' else ''False'')"

definition lower_char :: "char \<Rightarrow> char" where
  "lower_char c =
     (case map_of (zip ''ABCDEFGHIJKLMNOPQRSTUVWXYZ'' ''abcdefghijklmnopqrstuvwxyz'') c of
        None \<Rightarrow> c | Some d \<Rightarrow> d)"

definition upper_char :: "char \<Rightarrow> char" where
  "upper_char c =
     (case map_of (zip ''abcdefghijklmnopqrstuvwxyz'' ''ABCDEFGHIJKLMNOPQRSTUVWXYZ'') c of
        None \<Rightarrow> c | Some d \<Rightarrow> d)"

definition lower :: "string \<Rightarrow> string" where
  "lower s = map lower_char s"

definition upper :: "string \<Rightarrow> string" where
  "upper s = map upper_char s"

text \<open>
  A Python \<open>dict\<close> is an association list with distinct keys in insertion order:
  \<open>map_of\<close> reads a key, \<open>AList.update\<close> stores one (in place, or appended when new),
  \<open>AList.delete\<close> removes one. A Python \<open>set\<close> is a list without repetitions; the
  order in which Python iterates a set is not fixed by the language, and no statement
  below depends on it.
\<close>

type_synonym 'a pyset = "'a list"

definition set_add :: "'a \<Rightarrow> 'a pyset \<Rightarrow> 'a pyset" where
  "set_add x s = (if x \<in> set s then s else s @ [x])"

definition set_discard :: "'a \<Rightarrow> 'a pyset \<Rightarrow> 'a pyset" where
  "set_discard x s = removeAll x s"

definition set_update :: "'a pyset \<Rightarrow> 'a list \<Rightarrow> 'a pyset" where
  "set_update s xs = fold set_add xs s"

definition set_intersection :: "'a pyset \<Rightarrow> 'a pyset \<Rightarrow> 'a pyset" where
  "set_intersection s t = filter (\<lambda>x. x \<in> set t) s"

definition has_key :: "('k \<times> 'v) list \<Rightarrow> 'k \<Rightarrow> bool" where
  "has_key d k = (map_of d k \<noteq> None)"

text \<open>\<open>d.update(e)\<close>: every entry of \<open>e\<close> is stored into \<open>d\<close>, in order.\<close>

definition dict_update :: "('k \<times> 'v) list \<Rightarrow> ('k \<times> 'v) list \<Rightarrow> ('k \<times> 'v) list" where
  "dict_update d e = fold (\<lambda>(k, v) acc. AList.update k v acc) e d"

section \<open>The graph store\<close>

type_synonym ident = string
type_synonym attrs = "(string \<times> pyval) list"
type_synonym edge_props = "(string \<times> pyval) list"

record node =
  node_value :: attrs
  edges :: "(ident \<times> edge_props) list"

type_synonym index = "(string \<times> ident pyset) list"

record database =
  nodes :: "(ident \<times> node) list"
  indexes :: "(string \<times> index) list"

text \<open>
  A \<open>GraphDatabase\<close> instance: \<open>self.db\<close>, \<open>self.transaction\<close> (\<open>None\<close>, \<open>True\<close> or
  \<open>False\<close>) and \<open>self.transaction_history\<close>, a stack that grows at its end.
  \<open>deepcopy\<close> of a value is the value. Writing the two companion files (\<open>save\<close>) is
  taken to succeed and leaves the instance as it is.
\<close>

record graph_database =
  db :: database
  transaction :: "bool option"
  transaction_history :: "database list"

text \<open>
  What a method call leaves behind: the exception it raised, if any, and the instance
  after the call (an exception raised half-way leaves the changes made before it).
\<close>

type_synonym outcome = "error option \<times> graph_database"

definition new_graph_database :: graph_database where
  "new_graph_database =
     \<lparr>db = \<lparr>nodes = [], indexes = []\<rparr>, transaction = None, transaction_history = []\<rparr>"

text \<open>
  A runtime for the closed examples below; none of them stores a float or uses a
  regular expression, so none of its fields is ever called there.
\<close>

definition plain_runtime :: runtime where
  "plain_runtime =
     \<lparr>float_str = (\<lambda>r. ''float''), float_parse = (\<lambda>s. None),
      re_search = (\<lambda>p s. False), re_compiles = (\<lambda>p. True)\<rparr>"

text \<open>\<open>if self.transaction: self.transaction_history.append(deepcopy(self.db))\<close>\<close>

definition snapshot :: "graph_database \<Rightarrow> graph_database" where
  "snapshot g =
     (if transaction g = Some True
      then g\<lparr>transaction_history := transaction_history g @ [db g]\<rparr> else g)"

subsection \<open>Indexes\<close>

text \<open>Adding \<open>node_id\<close> to the set at \<open>value_key\<close>, creating the set when absent.\<close>

definition index_add :: "string \<Rightarrow> ident \<Rightarrow> index \<Rightarrow> index" where
  "index_add value_key node_id idx =
     (let idx1 = (if has_key idx value_key then idx else AList.update value_key [] idx)
      in AList.update value_key (set_add node_id (the (map_of idx1 value_key))) idx1)"

text \<open>Discarding \<open>node_id\<close> from the set at \<open>value_key\<close>, deleting the key when emptied.\<close>

definition index_discard :: "string \<Rightarrow> ident \<Rightarrow> index \<Rightarrow> index" where
  "index_discard value_key node_id idx =
     (case map_of idx value_key of
        None \<Rightarrow> idx
      | Some s \<Rightarrow>
          (let s1 = set_discard node_id s
           in if s1 = [] then AList.delete value_key idx else AList.update value_key s1 idx))"

definition create_index :: "runtime \<Rightarrow> string \<Rightarrow> graph_database \<Rightarrow> outcome" where
  "create_index R attribute g =
     (if attribute = [] then (Some ValueError, g)
      else if has_key (indexes (db g)) attribute then (Some ValueError, g)
      else
        (let built =
               fold (\<lambda>(node_id, data) idx.
                       (case map_of (node_value data) attribute of
                          None \<Rightarrow> idx
                        | Some v \<Rightarrow> index_add (py_str R v) node_id idx))
                    (nodes (db g)) []
         in (None, g\<lparr>db := (db g)\<lparr>indexes := AList.update attribute built (indexes (db g))\<rparr>\<rparr>)))"

definition drop_index :: "string \<Rightarrow> graph_database \<Rightarrow> outcome" where
  "drop_index attribute g =
     (if \<not> has_key (indexes (db g)) attribute then (Some ValueError, g)
      else (None, g\<lparr>db := (db g)\<lparr>indexes := AList.delete attribute (indexes (db g))\<rparr>\<rparr>))"

text \<open>\<open>_update_index(attribute, node_id, old_value, new_value)\<close> on the index maps.\<close>

definition update_index ::
  "runtime \<Rightarrow> string \<Rightarrow> ident \<Rightarrow> pyval option \<Rightarrow> pyval option \<Rightarrow>
     (string \<times> index) list \<Rightarrow> (string \<times> index) list" where
  "update_index R attribute node_id old_value new_value ixs =
     (case map_of ixs attribute of
        None \<Rightarrow> ixs
      | Some idx \<Rightarrow>
          (let idx1 = (case old_value of
                         None \<Rightarrow> idx
                       | Some ov \<Rightarrow> index_discard (py_str R ov) node_id idx);
               idx2 = (case new_value of
                         None \<Rightarrow> idx1
                       | Some nv \<Rightarrow> index_add (py_str R nv) node_id idx1)
           in AList.update attribute idx2 ixs))"

subsection \<open>Vertices and edges\<close>

text \<open>
  \<open>add_node\<close>; the identifier \<open>uuid4()\<close> draws is the argument \<open>new_id\<close>. The type
  check of the values cannot fail on \<open>pyval\<close>; the warnings print only.
\<close>

definition add_node :: "runtime \<Rightarrow> ident \<Rightarrow> attrs \<Rightarrow> graph_database \<Rightarrow> outcome" where
  "add_node R new_id val g =
     (if val = [] then (Some ValueError, g)
      else
        (let g1 = snapshot g;
             nodes1 = AList.update new_id \<lparr>node_value = val, edges = []\<rparr> (nodes (db g1));
             indexes1 =
               fold (\<lambda>attribute ixs.
                       (case map_of val attribute of
                          None \<Rightarrow> ixs
                        | Some v \<Rightarrow> update_index R attribute new_id None (Some v) ixs))
                    (map fst (indexes (db g1))) (indexes (db g1))
         in (None, g1\<lparr>db := \<lparr>nodes = nodes1, indexes = indexes1\<rparr>\<rparr>)))"

text \<open>Storing \<open>props\<close> as the edge record of \<open>k2\<close> in the adjacency of \<open>k1\<close>.\<close>

definition set_edge ::
  "ident \<Rightarrow> ident \<Rightarrow> edge_props \<Rightarrow> (ident \<times> node) list \<Rightarrow> (ident \<times> node) list" where
  "set_edge k1 k2 props ns =
     (case map_of ns k1 of
        None \<Rightarrow> ns
      | Some d \<Rightarrow> AList.update k1 (d\<lparr>edges := AList.update k2 props (edges d)\<rparr>) ns)"

definition del_edge :: "ident \<Rightarrow> ident \<Rightarrow> (ident \<times> node) list \<Rightarrow> (ident \<times> node) list" where
  "del_edge k1 k2 ns =
     (case map_of ns k1 of
        None \<Rightarrow> ns
      | Some d \<Rightarrow> AList.update k1 (d\<lparr>edges := AList.delete k2 (edges d)\<rparr>) ns)"

definition has_edge :: "(ident \<times> node) list \<Rightarrow> ident \<Rightarrow> ident \<Rightarrow> bool" where
  "has_edge ns k1 k2 =
     (case map_of ns k1 of None \<Rightarrow> False | Some d \<Rightarrow> has_key (edges d) k2)"

definition add_edge ::
  "runtime \<Rightarrow> ident \<Rightarrow> ident \<Rightarrow> pyval option \<Rightarrow> pyval option \<Rightarrow> graph_database \<Rightarrow> outcome"
  where
  "add_edge R key1 key2 label weight g =
     (if \<not> has_key (nodes (db g)) key1 \<or> \<not> has_key (nodes (db g)) key2
      then (Some KeyError, g)
      else if key1 = key2 then (Some ValueError, g)
      else if has_edge (nodes (db g)) key1 key2 then (Some ValueError, g)
      else
        (let g1 = snapshot g;
             props0 = (case label of None \<Rightarrow> [] | Some l \<Rightarrow> [(''label'', VStr (py_str R l))])
         in if weight \<noteq> None \<and> \<not> is_int_or_float (the weight) then (Some ValueError, g1)
            else
              (let edge_props =
                     (case weight of
                        None \<Rightarrow> props0
                      | Some w \<Rightarrow> AList.update ''weight'' w props0);
                   nodes1 = set_edge key2 key1 edge_props
                              (set_edge key1 key2 edge_props (nodes (db g1)))
               in (None, g1\<lparr>db := (db g1)\<lparr>nodes := nodes1\<rparr>\<rparr>))))"

definition delete_edge :: "ident \<Rightarrow> ident \<Rightarrow> graph_database \<Rightarrow> outcome" where
  "delete_edge key1 key2 g =
     (if \<not> has_key (nodes (db g)) key1 \<or> \<not> has_key (nodes (db g)) key2
      then (Some KeyError, g)
      else if \<not> has_edge (nodes (db g)) key1 key2 then (Some ValueError, g)
      else
        (let g1 = snapshot g;
             nodes1 = del_edge key1 key2 (nodes (db g1));
             g2 = g1\<lparr>db := (db g1)\<lparr>nodes := nodes1\<rparr>\<rparr>
         in if \<not> has_edge nodes1 key2 key1 then (Some KeyError, g2)
            else (None, g2\<lparr>db := (db g2)\<lparr>nodes := del_edge key2 key1 nodes1\<rparr>\<rparr>)))"

definition get_value :: "graph_database \<Rightarrow> ident \<Rightarrow> attrs" where
  "get_value g key =
     (case map_of (nodes (db g)) key of None \<Rightarrow> [] | Some d \<Rightarrow> node_value d)"

text \<open>
  The loop of \<open>delete_node\<close> over the neighbours of \<open>key\<close>:
  \<open>del self.db["nodes"][target_id]["edges"][key]\<close> raises \<open>KeyError\<close> when the
  neighbour is unknown or does not list \<open>key\<close>.
\<close>

fun unlink_all ::
  "ident \<Rightarrow> ident list \<Rightarrow> (ident \<times> node) list \<Rightarrow> error option \<times> (ident \<times> node) list" where
  "unlink_all key [] ns = (None, ns)"
| "unlink_all key (target_id # rest) ns =
     (if \<not> has_edge ns target_id key then (Some KeyError, ns)
      else unlink_all key rest (del_edge target_id key ns))"

text \<open>
  \<open>delete_node\<close>. The index entry it looks for is the \<^emph>\<open>lowercased\<close> string form of
  the value (\<open>str(value).lower()\<close>).
\<close>

definition delete_node :: "runtime \<Rightarrow> ident \<Rightarrow> graph_database \<Rightarrow> outcome" where
  "delete_node R key g =
     (case map_of (nodes (db g)) key of
        None \<Rightarrow> (Some KeyError, g)
      | Some node_data \<Rightarrow>
          (let g1 = snapshot g;
               indexes1 =
                 map (\<lambda>(attribute, idx).
                        (attribute,
                         (case map_of (node_value node_data) attribute of
                            None \<Rightarrow> idx
                          | Some v \<Rightarrow> index_discard (lower (py_str R v)) key idx)))
                     (indexes (db g1));
               (err, nodes1) = unlink_all key (map fst (edges node_data)) (nodes (db g1))
           in (case err of
                 Some e \<Rightarrow> (Some e, g1\<lparr>db := \<lparr>nodes = nodes1, indexes = indexes1\<rparr>\<rparr>)
               | None \<Rightarrow>
                   (None, g1\<lparr>db := \<lparr>nodes = AList.delete key nodes1, indexes = indexes1\<rparr>\<rparr>))))"

text \<open>\<open>old_val != new_val\<close> on the results of \<open>dict.get\<close>.\<close>

fun opt_ne :: "pyval option \<Rightarrow> pyval option \<Rightarrow> bool" where
  "opt_ne None None = False"
| "opt_ne (Some v) (Some w) = (\<not> py_eq v w)"
| "opt_ne a b = True"

definition update_node :: "runtime \<Rightarrow> ident \<Rightarrow> attrs \<Rightarrow> graph_database \<Rightarrow> outcome" where
  "update_node R key new_value g =
     (case map_of (nodes (db g)) key of
        None \<Rightarrow> (Some KeyError, g)
      | Some node_data0 \<Rightarrow>
          (if new_value = [] then (Some ValueError, g)
           else
             (let g1 = snapshot g;
                  current_value = node_value node_data0;
                  indexes1 =
                    fold (\<lambda>attribute ixs.
                            (let old_val = map_of current_value attribute;
                                 new_val = (case map_of new_value attribute of
                                              None \<Rightarrow> old_val | Some v \<Rightarrow> Some v)
                             in if opt_ne old_val new_val
                                then update_index R attribute key old_val new_val ixs
                                else ixs))
                         (map fst (indexes (db g1))) (indexes (db g1));
                  nodes1 = AList.update key
                             (node_data0\<lparr>node_value := dict_update current_value new_value\<rparr>)
                             (nodes (db g1))
              in (None, g1\<lparr>db := \<lparr>nodes = nodes1, indexes = indexes1\<rparr>\<rparr>))))"

subsection \<open>Transactions\<close>

definition begin_transaction :: "graph_database \<Rightarrow> outcome" where
  "begin_transaction g =
     (if transaction g \<noteq> None then (Some ValueError, g)
      else (None, g\<lparr>transaction := Some True, transaction_history := []\<rparr>))"

text \<open>\<open>self.transaction is None or not self.transaction\<close>\<close>

definition no_transaction :: "graph_database \<Rightarrow> bool" where
  "no_transaction g = (transaction g = None \<or> transaction g = Some False)"

definition commit_transaction :: "graph_database \<Rightarrow> outcome" where
  "commit_transaction g =
     (if no_transaction g then (Some ValueError, g)
      else if transaction_history g \<noteq> []
      then (None, g\<lparr>transaction_history := butlast (transaction_history g)\<rparr>)
      else (None, g))"

definition rollback_transaction :: "graph_database \<Rightarrow> outcome" where
  "rollback_transaction g =
     (if no_transaction g then (Some ValueError, g)
      else if transaction_history g = [] then (None, g)
      else (None, g\<lparr>db := last (transaction_history g),
                     transaction_history := butlast (transaction_history g)\<rparr>))"

definition stop_transaction :: "graph_database \<Rightarrow> outcome" where
  "stop_transaction g =
     (if no_transaction g then (Some ValueError, g)
      else (None, g\<lparr>transaction := Some False, transaction_history := []\<rparr>))"

subsection \<open>Sequences of calls on one instance\<close>

datatype op =
    AddNode ident attrs
  | UpdateNode ident attrs
  | DeleteNode ident
  | AddEdge ident ident "pyval option" "pyval option"
  | DeleteEdge ident ident
  | CreateIndex string
  | DropIndex string
  | Begin
  | Commit
  | Rollback
  | Stop

fun apply_op :: "runtime \<Rightarrow> op \<Rightarrow> graph_database \<Rightarrow> outcome" where
  "apply_op R (AddNode new_id val) g = add_node R new_id val g"
| "apply_op R (UpdateNode key val) g = update_node R key val g"
| "apply_op R (DeleteNode key) g = delete_node R key g"
| "apply_op R (AddEdge key1 key2 label weight) g = add_edge R key1 key2 label weight g"
| "apply_op R (DeleteEdge key1 key2) g = delete_edge key1 key2 g"
| "apply_op R (CreateIndex attribute) g = create_index R attribute g"
| "apply_op R (DropIndex attribute) g = drop_index attribute g"
| "apply_op R Begin g = begin_transaction g"
| "apply_op R Commit g = commit_transaction g"
| "apply_op R Rollback g = rollback_transaction g"
| "apply_op R Stop g = stop_transaction g"

text \<open>
  The caller goes on after an exception (the shell prints it and reads the next
  command), on the instance as the failed call left it.
\<close>

fun run :: "runtime \<Rightarrow> op list \<Rightarrow> graph_database \<Rightarrow> graph_database" where
  "run R [] g = g"
| "run R (c # cs) g = run R cs (snd (apply_op R c g))"

text \<open>The calls that change the stored data, and those among them that push a snapshot.\<close>

fun is_mutation :: "op \<Rightarrow> bool" where
  "is_mutation Begin = False"
| "is_mutation Commit = False"
| "is_mutation Rollback = False"
| "is_mutation Stop = False"
| "is_mutation c = True"

fun snapshotting :: "op \<Rightarrow> bool" where
  "snapshotting (AddNode new_id val) = True"
| "snapshotting (UpdateNode key val) = True"
| "snapshotting (DeleteNode key) = True"
| "snapshotting (AddEdge key1 key2 label weight) = True"
| "snapshotting (DeleteEdge key1 key2) = True"
| "snapshotting c = False"

section \<open>The query language\<close>

subsection \<open>String primitives\<close>

definition is_space :: "char \<Rightarrow> bool" where
  "is_space c =
     (c \<in> set [CHR '' '', CHR 0x09, CHR 0x0A, CHR 0x0B, CHR 0x0C, CHR 0x0D,
                CHR 0x1C, CHR 0x1D, CHR 0x1E, CHR 0x1F])"

definition strip :: "string \<Rightarrow> string" where
  "strip s = rev (dropWhile is_space (rev (dropWhile is_space s)))"

definition starts_with :: "string \<Rightarrow> string \<Rightarrow> bool" where
  "starts_with p s = (take (length p) s = p)"

definition ends_with :: "string \<Rightarrow> string \<Rightarrow> bool" where
  "ends_with p s = starts_with (rev p) (rev s)"

text \<open>\<open>sub in s\<close> on strings.\<close>

fun is_substring :: "string \<Rightarrow> string \<Rightarrow> bool" where
  "is_substring sub [] = (sub = [])"
| "is_substring sub (c # cs) = (starts_with sub (c # cs) \<or> is_substring sub cs)"

text \<open>
  \<open>s.split(sep, 1)\<close> for a separator that is not empty: the text before and after the
  first occurrence, \<open>None\<close> when there is none (the list Python returns has one element
  then, and unpacking it into two names raises \<open>ValueError\<close>).
\<close>

fun split_once :: "string \<Rightarrow> string \<Rightarrow> (string \<times> string) option" where
  "split_once sep [] = None"
| "split_once sep (c # cs) =
     (if starts_with sep (c # cs) then Some ([], drop (length sep) (c # cs))
      else (case split_once sep cs of None \<Rightarrow> None | Some (a, b) \<Rightarrow> Some (c # a, b)))"

text \<open>\<open>s.split(",")\<close>\<close>

fun split_char :: "char \<Rightarrow> string \<Rightarrow> string list" where
  "split_char d [] = [[]]"
| "split_char d (c # cs) =
     (if c = d then [] # split_char d cs
      else (case split_char d cs of [] \<Rightarrow> [[c]] | w # ws \<Rightarrow> (c # w) # ws))"

text \<open>
  \<open>re.split(r'\s+KW\s+', s, flags=re.IGNORECASE)\<close> for a keyword \<open>KW\<close> of capital
  letters. \<open>match_kw\<close> matches the pattern at the start of the text and gives what
  follows the match: each \<open>\s+\<close> takes the whole run of white space.
\<close>

definition match_kw :: "string \<Rightarrow> string \<Rightarrow> string option" where
  "match_kw kw s =
     (let s1 = dropWhile is_space s in
      if length s1 = length s then None
      else if upper (take (length kw) s1) \<noteq> kw then None
      else
        (let s2 = drop (length kw) s1; s3 = dropWhile is_space s2 in
         if length s3 = length s2 then None else Some s3))"

lemma match_kw_shorter: "match_kw kw s = Some r \<Longrightarrow> length r < length s"
proof -
  assume a: "match_kw kw s = Some r"
  have l1: "length (dropWhile is_space s) \<le> length s"
    by (rule length_dropWhile_le)
  have l2: "length (dropWhile is_space (drop (length kw) (dropWhile is_space s)))
              \<le> length (drop (length kw) (dropWhile is_space s))"
    by (rule length_dropWhile_le)
  from a have "r = dropWhile is_space (drop (length kw) (dropWhile is_space s))"
    and "length (dropWhile is_space s) \<noteq> length s"
    by (auto simp: match_kw_def Let_def split: if_splits)
  with l1 l2 show ?thesis by simp
qed

function re_split_kw :: "string \<Rightarrow> string \<Rightarrow> string list" where
  "re_split_kw kw [] = [[]]"
| "re_split_kw kw (c # cs) =
     (case match_kw kw (c # cs) of
        Some r \<Rightarrow> [] # re_split_kw kw r
      | None \<Rightarrow> (case re_split_kw kw cs of [] \<Rightarrow> [[c]] | w # ws \<Rightarrow> (c # w) # ws))"
  by pat_completeness auto
termination
  by (relation "measure (\<lambda>(kw, s). length s)") (auto dest: match_kw_shorter)

subsection \<open>Numbers in query text\<close>

definition is_digit :: "char \<Rightarrow> bool" where
  "is_digit c = (c \<in> set ''0123456789'')"

definition digit_value :: "char \<Rightarrow> nat" where
  "digit_value c =
     (case map_of (zip ''0123456789'' [0, 1, 2, 3, 4, 5, 6, 7, 8, 9]) c of
        None \<Rightarrow> 0 | Some n \<Rightarrow> n)"

text \<open>Decimal digits, single underscores allowed between two digits.\<close>

fun digits_ok :: "string \<Rightarrow> bool" where
  "digits_ok [] = False"
| "digits_ok [c] = is_digit c"
| "digits_ok (c # d # cs) =
     (is_digit c \<and> (if d = CHR ''_'' then digits_ok cs else digits_ok (d # cs)))"

definition dec_value :: "string \<Rightarrow> nat" where
  "dec_value s = foldl (\<lambda>acc c. 10 * acc + digit_value c) 0 (filter is_digit s)"

text \<open>\<open>int(s)\<close> on a string; \<open>None\<close> is \<open>ValueError\<close>.\<close>

definition py_int :: "string \<Rightarrow> int option" where
  "py_int s =
     (case strip s of
        [] \<Rightarrow> None
      | c # r \<Rightarrow>
          (let body = (if c = CHR ''-'' \<or> c = CHR ''+'' then r else c # r) in
           if digits_ok body
           then Some (if c = CHR ''-'' then - int (dec_value body) else int (dec_value body))
           else None))"

text \<open>\<open>float(value) if '.' in value else int(value)\<close>\<close>

definition parse_number :: "runtime \<Rightarrow> string \<Rightarrow> pyval option" where
  "parse_number R s =
     (if CHR ''.'' \<in> set s then map_option VFloat (float_parse R s)
      else map_option VInt (py_int s))"

subsection \<open>Parsing\<close>

text \<open>
  A condition is the tuple \<open>(key, op, value)\<close>; the value is a string, a number
  (for \<open>edge.weight\<close>), or a list of either (for \<open>IN\<close>).
\<close>

datatype qvalue = QStr string | QNum pyval | QStrs "string list" | QNums "pyval list"

type_synonym condition = "string \<times> string \<times> qvalue"

definition is_edge_weight :: "string \<Rightarrow> bool" where
  "is_edge_weight key = (starts_with ''edge.'' key \<and> drop 5 key = ''weight'')"

text \<open>The comparison operators, in the order in which the parser looks for them.\<close>

definition comparison_ops :: "string list" where
  "comparison_ops = [''='', ''>'', ''<'', ''>='', ''<='', ''!='']"

definition parse_comparison :: "runtime \<Rightarrow> string \<Rightarrow> string \<Rightarrow> error + condition" where
  "parse_comparison R op cond =
     (case split_once op cond of
        None \<Rightarrow> Inl ValueError
      | Some (k, v) \<Rightarrow>
          (let key = strip k; val = strip v in
           if is_edge_weight key
           then (case parse_number R val of
                   None \<Rightarrow> Inl ValueError
                 | Some n \<Rightarrow> Inr (key, op, QNum n))
           else Inr (key, op, QStr val)))"

definition parse_in :: "runtime \<Rightarrow> string \<Rightarrow> error + condition" where
  "parse_in R cond =
     (case split_once '' IN '' cond of
        None \<Rightarrow> Inl ValueError
      | Some (k, v) \<Rightarrow>
          (let key = strip k; val = strip v in
           if \<not> (starts_with ''('' val \<and> ends_with '')'' val) then Inl ValueError
           else
             (let value_list =
                    filter (\<lambda>w. w \<noteq> []) (map strip (split_char (CHR '','') (butlast (tl val))))
              in if value_list = [] then Inl ValueError
                 else if is_edge_weight key
                 then (case those (map (parse_number R) value_list) of
                         None \<Rightarrow> Inl ValueError
                       | Some ns \<Rightarrow> Inr (key, ''IN'', QNums ns))
                 else Inr (key, ''IN'', QStrs value_list))))"

definition parse_contains :: "string \<Rightarrow> error + condition" where
  "parse_contains cond =
     (case split_once '' CONTAINS '' cond of
        None \<Rightarrow> Inl ValueError
      | Some (k, v) \<Rightarrow> Inr (strip k, ''CONTAINS'', QStr (strip v)))"

definition parse_regex :: "runtime \<Rightarrow> string \<Rightarrow> error + condition" where
  "parse_regex R cond =
     (case split_once '' REGEX '' cond of
        None \<Rightarrow> Inl ValueError
      | Some (k, v) \<Rightarrow>
          (if re_compiles R (strip v) then Inr (strip k, ''REGEX'', QStr (strip v))
           else Inl ValueError))"

text \<open>
  One condition (the body of the loop over \<open>and_conditions\<close>): the first operator of
  \<open>comparison_ops\<close> that occurs anywhere in the text is the one the text is split at.
\<close>

definition parse_condition :: "runtime \<Rightarrow> string \<Rightarrow> error + condition" where
  "parse_condition R cond0 =
     (let cond = strip cond0 in
      case find (\<lambda>op. is_substring op cond) comparison_ops of
        Some op \<Rightarrow> parse_comparison R op cond
      | None \<Rightarrow>
          (if is_substring '' IN '' (upper cond) then parse_in R cond
           else if is_substring '' CONTAINS '' (upper cond) then parse_contains cond
           else if is_substring '' REGEX '' (upper cond) then parse_regex R cond
           else Inl ValueError))"

text \<open>The results of a loop whose body may raise: the first exception ends it.\<close>

fun collect :: "(error + 'a) list \<Rightarrow> error + 'a list" where
  "collect [] = Inr []"
| "collect (Inl e # rs) = Inl e"
| "collect (Inr x # rs) = (case collect rs of Inl e \<Rightarrow> Inl e | Inr xs \<Rightarrow> Inr (x # xs))"

definition parse_query :: "runtime \<Rightarrow> string \<Rightarrow> error + condition list list" where
  "parse_query R query_string =
     (if \<not> starts_with ''where'' (lower query_string) then Inl ValueError
      else
        (let conditions_str = strip (drop 5 query_string) in
         if conditions_str = [] then Inl ValueError
         else collect
                (map (\<lambda>or_group. collect (map (parse_condition R) (re_split_kw ''AND'' or_group)))
                     (re_split_kw ''OR'' conditions_str))))"

subsection \<open>Evaluating one condition on a vertex attribute\<close>

text \<open>
  The parser pairs the comparison operators, \<open>CONTAINS\<close> and \<open>REGEX\<close> with a string
  (a number for \<open>edge.weight\<close>, on which \<open>'.' in value\<close> raises \<open>TypeError\<close>) and
  \<open>IN\<close> with a list. It never builds a condition of another shape; where the
  evaluation meets one, the model answers \<open>TypeError\<close>.
\<close>

fun lit_number :: "runtime \<Rightarrow> qvalue \<Rightarrow> error + pyval" where
  "lit_number R (QStr s) =
     (case parse_number R s of None \<Rightarrow> Inl ValueError | Some n \<Rightarrow> Inr n)"
| "lit_number R v = Inl TypeError"

text \<open>\<open>[float(v) if '.' in v else int(v) for v in value]\<close>\<close>

fun lit_numbers :: "runtime \<Rightarrow> qvalue \<Rightarrow> error + pyval list" where
  "lit_numbers R (QStrs vs) =
     (case those (map (parse_number R) vs) of None \<Rightarrow> Inl ValueError | Some ns \<Rightarrow> Inr ns)"
| "lit_numbers R v = Inl TypeError"

text \<open>\<open>value if case_sensitive else value.lower()\<close>\<close>

fun lit_lower :: "bool \<Rightarrow> qvalue \<Rightarrow> error + qvalue" where
  "lit_lower True v = Inr v"
| "lit_lower False (QStr s) = Inr (QStr (lower s))"
| "lit_lower False v = Inl TypeError"

text \<open>\<open>[v.lower() for v in value]\<close> unless case sensitive.\<close>

fun lits_lower :: "bool \<Rightarrow> qvalue \<Rightarrow> error + qvalue" where
  "lits_lower True v = Inr v"
| "lits_lower False (QStrs vs) = Inr (QStrs (map lower vs))"
| "lits_lower False v = Inl TypeError"

text \<open>\<open>s == value\<close> and \<open>s in value\<close> for a string \<open>s\<close>.\<close>

fun str_eq_lit :: "string \<Rightarrow> qvalue \<Rightarrow> bool" where
  "str_eq_lit s (QStr t) = (s = t)"
| "str_eq_lit s v = False"

fun str_in_lits :: "string \<Rightarrow> qvalue \<Rightarrow> error + bool" where
  "str_in_lits s (QStrs vs) = Inr (s \<in> set vs)"
| "str_in_lits s (QNums ns) = Inr False"
| "str_in_lits s v = Inl TypeError"

fun is_bool :: "pyval \<Rightarrow> bool" where
  "is_bool (VBool b) = True"
| "is_bool v = False"

fun is_str :: "pyval \<Rightarrow> bool" where
  "is_str (VStr s) = True"
| "is_str v = False"

text \<open>\<open>str(v).lower()\<close> unless case sensitive, for a value that is a string.\<close>

definition fold_case :: "runtime \<Rightarrow> bool \<Rightarrow> pyval \<Rightarrow> string" where
  "fold_case R case_sensitive v =
     (if case_sensitive then py_str R v else lower (py_str R v))"

text \<open>
  The branch \<open>op == "="\<close> for a vertex attribute, up to \<open>node_val == value\<close>. The test
  \<open>isinstance(node_val, (int, float))\<close> comes first and holds for a boolean too, so
  the \<open>elif isinstance(node_val, bool)\<close> branch is never taken.
\<close>

definition equality_test :: "runtime \<Rightarrow> bool \<Rightarrow> pyval \<Rightarrow> qvalue \<Rightarrow> error + bool" where
  "equality_test R case_sensitive node_val v =
     (if is_int_or_float node_val
      then (case lit_number R v of Inl e \<Rightarrow> Inl e | Inr n \<Rightarrow> Inr (py_eq node_val n))
      else if is_bool node_val
      then (case v of
              QStr s \<Rightarrow> Inr (py_eq node_val (VBool (lower s = ''true'')))
            | _ \<Rightarrow> Inl TypeError)
      else (case lit_lower case_sensitive v of
              Inl e \<Rightarrow> Inl e
            | Inr v1 \<Rightarrow> Inr (str_eq_lit (fold_case R case_sensitive node_val) v1)))"

text \<open>The branches \<open>op == ">"\<close>, \<open>"<"\<close>, \<open>">="\<close>, \<open>"<="\<close> for a vertex attribute.\<close>

definition order_test ::
  "runtime \<Rightarrow> (rat \<Rightarrow> rat \<Rightarrow> bool) \<Rightarrow> pyval \<Rightarrow> qvalue \<Rightarrow> error + bool" where
  "order_test R rel node_val v =
     (if \<not> is_int_or_float node_val then Inr False
      else (case lit_number R v of
              Inl e \<Rightarrow> Inl e
            | Inr n \<Rightarrow> Inr (rel (num_of node_val) (num_of n))))"

definition membership_test :: "runtime \<Rightarrow> bool \<Rightarrow> pyval \<Rightarrow> qvalue \<Rightarrow> error + bool" where
  "membership_test R case_sensitive node_val v =
     (if is_int_or_float node_val
      then (case lit_numbers R v of
              Inl e \<Rightarrow> Inl e
            | Inr ns \<Rightarrow> Inr (list_ex (py_eq node_val) ns))
      else if is_bool node_val
      then (case v of
              QStrs vs \<Rightarrow> Inr (list_ex (\<lambda>s. py_eq node_val (VBool (lower s = ''true''))) vs)
            | _ \<Rightarrow> Inl TypeError)
      else (case lits_lower case_sensitive v of
              Inl e \<Rightarrow> Inl e
            | Inr v1 \<Rightarrow> str_in_lits (fold_case R case_sensitive node_val) v1))"

definition contains_test ::
  "runtime \<Rightarrow> bool \<Rightarrow> bool \<Rightarrow> pyval \<Rightarrow> qvalue \<Rightarrow> error + bool option" where
  "contains_test R cast_non_strings case_sensitive node_val v =
     (let node_val_str = (if cast_non_strings then VStr (py_str R node_val) else node_val) in
      case node_val_str of
        VStr s \<Rightarrow>
          (case v of
             QStr t \<Rightarrow>
               Inr (Some (if case_sensitive then is_substring t s
                          else is_substring (lower t) (lower s)))
           | _ \<Rightarrow> Inl TypeError)
      | _ \<Rightarrow> Inr None)"

definition regex_test :: "runtime \<Rightarrow> pyval \<Rightarrow> qvalue \<Rightarrow> error + bool" where
  "regex_test R node_val v =
     (case node_val of
        VStr s \<Rightarrow> (case v of QStr t \<Rightarrow> Inr (re_search R t s) | _ \<Rightarrow> Inl TypeError)
      | _ \<Rightarrow> Inr False)"

definition negate :: "error + bool \<Rightarrow> error + bool" where
  "negate r = (case r of Inl e \<Rightarrow> Inl e | Inr b \<Rightarrow> Inr (\<not> b))"

text \<open>
  \<open>matches_and\<close> after one condition on a vertex attribute that the vertex has, in the
  full scan (the \<open>try\<close> block; its \<open>except ValueError\<close> raises \<open>ValueError\<close> again).
\<close>

definition eval_attr ::
  "runtime \<Rightarrow> bool \<Rightarrow> bool \<Rightarrow> pyval \<Rightarrow> string \<Rightarrow> qvalue \<Rightarrow> error + bool" where
  "eval_attr R cast_non_strings case_sensitive node_val op v =
     (if op = ''='' then equality_test R case_sensitive node_val v
      else if op = ''>'' then order_test R (\<lambda>a b. a > b) node_val v
      else if op = ''<'' then order_test R (\<lambda>a b. a < b) node_val v
      else if op = ''>='' then order_test R (\<lambda>a b. a \<ge> b) node_val v
      else if op = ''<='' then order_test R (\<lambda>a b. a \<le> b) node_val v
      else if op = ''!='' then negate (equality_test R case_sensitive node_val v)
      else if op = ''IN'' then membership_test R case_sensitive node_val v
      else if op = ''CONTAINS''
      then (case contains_test R cast_non_strings case_sensitive node_val v of
              Inl e \<Rightarrow> Inl e
            | Inr None \<Rightarrow> Inr False
            | Inr (Some b) \<Rightarrow> Inr b)
      else if op = ''REGEX'' then regex_test R node_val v
      else Inr True)"

text \<open>The same in the indexed plan, which has branches for \<open>=\<close> and \<open>IN\<close> only.\<close>

definition eval_attr_indexed ::
  "runtime \<Rightarrow> bool \<Rightarrow> pyval \<Rightarrow> string \<Rightarrow> qvalue \<Rightarrow> error + bool" where
  "eval_attr_indexed R case_sensitive node_val op v =
     (if op = ''='' then equality_test R case_sensitive node_val v
      else if op = ''IN'' then membership_test R case_sensitive node_val v
      else Inr True)"

subsection \<open>Evaluating one condition on the edges of a vertex\<close>

text \<open>
  One pass of the loop over \<open>edges.values()\<close> for an edge that has the property:
  \<open>Matched\<close> leaves the loop with \<open>edge_matches\<close> true, \<open>GiveUp\<close> is the \<open>break\<close> of
  the \<open>CONTAINS\<close> branch on a value that is no string, \<open>NotMatched\<close> goes on to the next
  edge. The loop variable \<open>value\<close> may be overwritten (lowercased), so it is returned.
\<close>

datatype verdict = Matched | NotMatched | GiveUp

definition verdict_of :: "bool \<Rightarrow> verdict" where
  "verdict_of b = (if b then Matched else NotMatched)"

text \<open>\<open>=\<close> and \<open>!=\<close> on an edge property; \<open>want\<close> is the truth value of \<open>==\<close> asked for.\<close>

definition edge_equality ::
  "runtime \<Rightarrow> bool \<Rightarrow> bool \<Rightarrow> qvalue \<Rightarrow> pyval \<Rightarrow> error + verdict \<times> qvalue" where
  "edge_equality R case_sensitive want v edge_val =
     (if is_int_or_float edge_val
      then (case lit_number R v of
              Inl ValueError \<Rightarrow> Inr (NotMatched, v)
            | Inl e \<Rightarrow> Inl e
            | Inr n \<Rightarrow> Inr (verdict_of (py_eq edge_val n = want), v))
      else (case lit_lower case_sensitive v of
              Inl e \<Rightarrow> Inl e
            | Inr v1 \<Rightarrow>
                Inr (verdict_of (str_eq_lit (fold_case R case_sensitive edge_val) v1 = want), v1)))"

definition edge_order ::
  "runtime \<Rightarrow> (rat \<Rightarrow> rat \<Rightarrow> bool) \<Rightarrow> qvalue \<Rightarrow> pyval \<Rightarrow> error + verdict \<times> qvalue" where
  "edge_order R rel v edge_val =
     (if is_int_or_float edge_val
      then (case lit_number R v of
              Inl e \<Rightarrow> Inl e
            | Inr n \<Rightarrow> Inr (verdict_of (rel (num_of edge_val) (num_of n)), v))
      else Inr (NotMatched, v))"

definition edge_test ::
  "runtime \<Rightarrow> bool \<Rightarrow> bool \<Rightarrow> string \<Rightarrow> qvalue \<Rightarrow> pyval \<Rightarrow> error + verdict \<times> qvalue" where
  "edge_test R cast_non_strings case_sensitive op v edge_val =
     (if op = ''='' then edge_equality R case_sensitive True v edge_val
      else if op = ''>'' then edge_order R (\<lambda>a b. a > b) v edge_val
      else if op = ''<'' then edge_order R (\<lambda>a b. a < b) v edge_val
      else if op = ''>='' then edge_order R (\<lambda>a b. a \<ge> b) v edge_val
      else if op = ''<='' then edge_order R (\<lambda>a b. a \<le> b) v edge_val
      else if op = ''!='' then edge_equality R case_sensitive False v edge_val
      else if op = ''IN''
      then (if is_int_or_float edge_val
            then (case lit_numbers R v of
                    Inl e \<Rightarrow> Inl e
                  | Inr ns \<Rightarrow> Inr (verdict_of (list_ex (py_eq edge_val) ns), v))
            else (case lits_lower case_sensitive v of
                    Inl e \<Rightarrow> Inl e
                  | Inr v1 \<Rightarrow>
                      (case str_in_lits (fold_case R case_sensitive edge_val) v1 of
                         Inl e \<Rightarrow> Inl e
                       | Inr b \<Rightarrow> Inr (verdict_of b, v1))))
      else if op = ''CONTAINS''
      then (case contains_test R cast_non_strings case_sensitive edge_val v of
              Inl e \<Rightarrow> Inl e
            | Inr None \<Rightarrow> Inr (GiveUp, v)
            | Inr (Some b) \<Rightarrow> Inr (verdict_of b, v))
      else if op = ''REGEX'' \<and> is_str edge_val
      then (case regex_test R edge_val v of
              Inl e \<Rightarrow> Inl e
            | Inr b \<Rightarrow> Inr (verdict_of b, v))
      else Inr (NotMatched, v))"

text \<open>The loop over the edges of a vertex: \<open>edge_matches\<close> when it ends.\<close>

fun edge_loop ::
  "runtime \<Rightarrow> bool \<Rightarrow> bool \<Rightarrow> string \<Rightarrow> string \<Rightarrow> qvalue \<Rightarrow> edge_props list \<Rightarrow> error + bool"
  where
  "edge_loop R cast_non_strings case_sensitive edge_prop op v [] = Inr False"
| "edge_loop R cast_non_strings case_sensitive edge_prop op v (edge_data # rest) =
     (case map_of edge_data edge_prop of
        None \<Rightarrow> edge_loop R cast_non_strings case_sensitive edge_prop op v rest
      | Some edge_val \<Rightarrow>
          (case edge_test R cast_non_strings case_sensitive op v edge_val of
             Inl e \<Rightarrow> Inl e
           | Inr (Matched, v1) \<Rightarrow> Inr True
           | Inr (GiveUp, v1) \<Rightarrow> Inr False
           | Inr (NotMatched, v1) \<Rightarrow>
               edge_loop R cast_non_strings case_sensitive edge_prop op v1 rest))"

subsection \<open>Planning and execution\<close>

text \<open>\<open>matches_and\<close> for one vertex in the full scan: the loop over the conditions.\<close>

fun matches_all ::
  "runtime \<Rightarrow> bool \<Rightarrow> bool \<Rightarrow> node \<Rightarrow> condition list \<Rightarrow> error + bool" where
  "matches_all R cast_non_strings case_sensitive data [] = Inr True"
| "matches_all R cast_non_strings case_sensitive data ((key, op, v) # rest) =
     (if starts_with ''edge.'' key
      then (if edges data = [] then Inr False
            else (case edge_loop R cast_non_strings case_sensitive (drop 5 key) op v
                         (map snd (edges data)) of
                    Inl e \<Rightarrow> Inl e
                  | Inr b \<Rightarrow>
                      if b then matches_all R cast_non_strings case_sensitive data rest
                      else Inr False))
      else (case map_of (node_value data) key of
              None \<Rightarrow> Inr False
            | Some node_val \<Rightarrow>
                (case eval_attr R cast_non_strings case_sensitive node_val op v of
                   Inl e \<Rightarrow> Inl e
                 | Inr b \<Rightarrow>
                     if b then matches_all R cast_non_strings case_sensitive data rest
                     else Inr False)))"

text \<open>\<open>matches_and\<close> for one candidate of the indexed plan.\<close>

fun matches_all_indexed ::
  "runtime \<Rightarrow> bool \<Rightarrow> attrs \<Rightarrow> condition list \<Rightarrow> error + bool" where
  "matches_all_indexed R case_sensitive node_val_map [] = Inr True"
| "matches_all_indexed R case_sensitive node_val_map ((key, op, v) # rest) =
     (case map_of node_val_map key of
        None \<Rightarrow> Inr False
      | Some node_val \<Rightarrow>
          (case eval_attr_indexed R case_sensitive node_val op v of
             Inl e \<Rightarrow> Inl e
           | Inr b \<Rightarrow>
               if b then matches_all_indexed R case_sensitive node_val_map rest
               else Inr False))"

text \<open>
  \<open>str(value)\<close> of a literal (a list prints as Python prints a list of plain strings).
\<close>

definition quoted :: "string \<Rightarrow> string" where
  "quoted s = [CHR 0x27] @ s @ [CHR 0x27]"

fun join_comma :: "string list \<Rightarrow> string" where
  "join_comma [] = []"
| "join_comma [s] = s"
| "join_comma (s # t # ss) = s @ '', '' @ join_comma (t # ss)"

fun qvalue_str :: "runtime \<Rightarrow> qvalue \<Rightarrow> string" where
  "qvalue_str R (QStr s) = s"
| "qvalue_str R (QNum n) = py_str R n"
| "qvalue_str R (QStrs vs) = ''['' @ join_comma (map quoted vs) @ '']''"
| "qvalue_str R (QNums ns) = ''['' @ join_comma (map (py_str R) ns) @ '']''"

text \<open>The elements \<open>for val in value\<close> visits, each as \<open>str(val)\<close>.\<close>

fun qvalue_items :: "runtime \<Rightarrow> qvalue \<Rightarrow> string list" where
  "qvalue_items R (QStr s) = map (\<lambda>c. [c]) s"
| "qvalue_items R (QNum n) = []"
| "qvalue_items R (QStrs vs) = vs"
| "qvalue_items R (QNums ns) = map (py_str R) ns"

text \<open>\<open>str(value) if case_sensitive else str(value).lower()\<close>\<close>

definition probe_key :: "bool \<Rightarrow> string \<Rightarrow> string" where
  "probe_key case_sensitive s = (if case_sensitive then s else lower s)"

definition index_get :: "index \<Rightarrow> string \<Rightarrow> ident pyset" where
  "index_get idx value_key = (case map_of idx value_key of None \<Rightarrow> [] | Some s \<Rightarrow> s)"

definition narrow :: "ident pyset option \<Rightarrow> ident pyset \<Rightarrow> ident pyset option" where
  "narrow candidate_nodes found =
     (case candidate_nodes of
        None \<Rightarrow> Some found
      | Some c \<Rightarrow> Some (set_intersection c found))"

text \<open>
  The planning loop over the conditions of one AND-group. \<open>None\<close>: the loop was left
  by \<open>break\<close> (an edge condition, an operator other than \<open>=\<close> and \<open>IN\<close>, or an attribute
  without index). \<open>Some c\<close>: it ran to its end with \<open>candidate_nodes = c\<close>.
\<close>

fun probe ::
  "runtime \<Rightarrow> bool \<Rightarrow> (string \<times> index) list \<Rightarrow> condition list \<Rightarrow> ident pyset option \<Rightarrow>
     ident pyset option option" where
  "probe R case_sensitive ixs [] candidate_nodes = Some candidate_nodes"
| "probe R case_sensitive ixs ((key, op, v) # rest) candidate_nodes =
     (if starts_with ''edge.'' key then None
      else if (op \<noteq> ''='' \<and> op \<noteq> ''IN'') \<or> \<not> has_key ixs key then None
      else
        (let idx = (case map_of ixs key of None \<Rightarrow> [] | Some i \<Rightarrow> i);
             found =
               (if op = ''=''
                then index_get idx (probe_key case_sensitive (qvalue_str R v))
                else fold (\<lambda>val acc. set_update acc (index_get idx (probe_key case_sensitive val)))
                       (qvalue_items R v) [])
         in probe R case_sensitive ixs rest (narrow candidate_nodes found)))"

type_synonym results = "(ident \<times> attrs) list"

text \<open>The loop of the indexed plan over the candidates.\<close>

fun indexed_scan ::
  "runtime \<Rightarrow> bool \<Rightarrow> (ident \<times> node) list \<Rightarrow> condition list \<Rightarrow> ident list \<Rightarrow>
     results \<times> ident pyset \<Rightarrow> error + results \<times> ident pyset" where
  "indexed_scan R case_sensitive ns conditions [] acc = Inr acc"
| "indexed_scan R case_sensitive ns conditions (node_id # rest) (res, seen_ids) =
     (if node_id \<in> set seen_ids
      then indexed_scan R case_sensitive ns conditions rest (res, seen_ids)
      else (case map_of ns node_id of
              None \<Rightarrow> Inl KeyError
            | Some data \<Rightarrow>
                (case matches_all_indexed R case_sensitive (node_value data) conditions of
                   Inl e \<Rightarrow> Inl e
                 | Inr b \<Rightarrow>
                     indexed_scan R case_sensitive ns conditions rest
                       (if b then (res @ [(node_id, node_value data)], set_add node_id seen_ids)
                        else (res, seen_ids)))))"

text \<open>The loop of the full scan over \<open>self.db["nodes"].items()\<close>.\<close>

fun full_scan ::
  "runtime \<Rightarrow> bool \<Rightarrow> bool \<Rightarrow> condition list \<Rightarrow> (ident \<times> node) list \<Rightarrow>
     results \<times> ident pyset \<Rightarrow> error + results \<times> ident pyset" where
  "full_scan R cast_non_strings case_sensitive conditions [] acc = Inr acc"
| "full_scan R cast_non_strings case_sensitive conditions ((node_id, data) # rest)
       (res, seen_ids) =
     (if node_id \<in> set seen_ids
      then full_scan R cast_non_strings case_sensitive conditions rest (res, seen_ids)
      else (case matches_all R cast_non_strings case_sensitive data conditions of
              Inl e \<Rightarrow> Inl e
            | Inr b \<Rightarrow>
                full_scan R cast_non_strings case_sensitive conditions rest
                  (if b then (res @ [(node_id, node_value data)], set_add node_id seen_ids)
                   else (res, seen_ids))))"

text \<open>The loop over the OR-groups.\<close>

fun run_groups ::
  "runtime \<Rightarrow> bool \<Rightarrow> bool \<Rightarrow> database \<Rightarrow> condition list list \<Rightarrow>
     results \<times> ident pyset \<Rightarrow> error + results \<times> ident pyset" where
  "run_groups R cast_non_strings case_sensitive d [] acc = Inr acc"
| "run_groups R cast_non_strings case_sensitive d (conditions # groups) acc =
     (case (case probe R case_sensitive (indexes d) conditions None of
              Some (Some candidate_nodes) \<Rightarrow>
                indexed_scan R case_sensitive (nodes d) conditions candidate_nodes acc
            | _ \<Rightarrow> full_scan R cast_non_strings case_sensitive conditions (nodes d) acc) of
        Inl e \<Rightarrow> Inl e
      | Inr acc1 \<Rightarrow> run_groups R cast_non_strings case_sensitive d groups acc1)"

text \<open>
  \<open>query(query_string, cast_non_strings, case_sensitive)\<close>: the list of
  \<open>(node_id, node_value)\<close>, or the exception raised.
\<close>

definition query :: "runtime \<Rightarrow> database \<Rightarrow> string \<Rightarrow> bool \<Rightarrow> bool \<Rightarrow> error + results" where
  "query R d query_string cast_non_strings case_sensitive =
     (case parse_query R query_string of
        Inl e \<Rightarrow> Inl e
      | Inr or_conditions \<Rightarrow>
          (case run_groups R cast_non_strings case_sensitive d or_conditions ([], []) of
             Inl e \<Rightarrow> Inl e
           | Inr (res, seen_ids) \<Rightarrow> Inr res))"

section \<open>The catalog: backup and export\<close>

text \<open>
  The files on disk: a path has a content or does not exist
  (\<open>os.path.exists(p)\<close> is \<open>files p \<noteq> None\<close>). Reading and writing are taken to
  succeed when the path checks of the source have passed.
\<close>

type_synonym files = "string \<Rightarrow> string option"

text \<open>\<open>s.replace(old, new)\<close> for a pattern \<open>old\<close> that is not empty.\<close>

function py_replace :: "string \<Rightarrow> string \<Rightarrow> string \<Rightarrow> string" where
  "py_replace old new [] = []"
| "py_replace old new (c # cs) =
     (if old \<noteq> [] \<and> starts_with old (c # cs)
      then new @ py_replace old new (drop (length old) (c # cs))
      else c # py_replace old new cs)"
  by pat_completeness auto
termination
  by (relation "measure (\<lambda>(old, new, s). length s)") auto

definition nodes_path :: "string \<Rightarrow> string" where
  "nodes_path file = py_replace ''.json'' ''_nodes.json'' file"

definition indexes_path :: "string \<Rightarrow> string" where
  "indexes_path file = py_replace ''.json'' ''_indexes.json'' file"

text \<open>\<open>shutil.copy2(src, dst)\<close>\<close>

definition copy2 :: "string \<Rightarrow> string \<Rightarrow> files \<Rightarrow> files" where
  "copy2 src dst fs = (case fs src of None \<Rightarrow> fs | Some content \<Rightarrow> fs(dst \<mapsto> content))"

text \<open>
  \<open>DatabaseManager.backup_database\<close>: the exception raised, if any, and the files
  after the call.
\<close>

definition backup_database ::
  "(string \<times> string) list \<Rightarrow> string \<Rightarrow> string \<Rightarrow> files \<Rightarrow> error option \<times> files" where
  "backup_database registry db_name backup_file fs =
     (case map_of registry db_name of
        None \<Rightarrow> (Some ValueError, fs)
      | Some db_file \<Rightarrow>
          (if fs (nodes_path db_file) = None then (Some ValueError, fs)
           else if fs (nodes_path backup_file) \<noteq> None \<or> fs (indexes_path backup_file) \<noteq> None
           then (Some ValueError, fs)
           else
             (let fs1 = copy2 (nodes_path db_file) (nodes_path backup_file) fs
              in if fs1 (indexes_path db_file) \<noteq> None
                 then (None, copy2 (indexes_path db_file) (indexes_path backup_file) fs1)
                 else (None, fs1))))"

text \<open>
  \<open>DatabaseManager.export_database\<close>. \<open>reformat\<close> is
  \<open>json.dumps(json.loads(text), indent=4)\<close>, \<open>None\<close> when the text is not JSON (the
  source turns the decoding error into \<open>ValueError\<close>).
\<close>

definition export_database ::
  "(string \<Rightarrow> string option) \<Rightarrow> (string \<times> string) list \<Rightarrow> string \<Rightarrow> string \<Rightarrow> files \<Rightarrow>
     error option \<times> files" where
  "export_database reformat registry db_name export_file fs =
     (case map_of registry db_name of
        None \<Rightarrow> (Some ValueError, fs)
      | Some db_file \<Rightarrow>
          (case fs (nodes_path db_file) of
             None \<Rightarrow> (Some ValueError, fs)
           | Some nodes_text \<Rightarrow>
               (if fs (nodes_path export_file) \<noteq> None \<or> fs (indexes_path export_file) \<noteq> None
                then (Some ValueError, fs)
                else
                  (case reformat nodes_text of
                     None \<Rightarrow> (Some ValueError, fs)
                   | Some nodes_data \<Rightarrow>
                       (let fs1 = fs(nodes_path export_file \<mapsto> nodes_data)
                        in case fs1 (indexes_path db_file) of
                             None \<Rightarrow> (None, fs1)
                           | Some indexes_text \<Rightarrow>
                               (case reformat indexes_text of
                                  None \<Rightarrow> (Some ValueError, fs1)
                                | Some indexes_data \<Rightarrow>
                                    (None, fs1(indexes_path export_file \<mapsto> indexes_data))))))))"

section \<open>Shortest path\<close>

text \<open>
  The loop of \<open>find_path\<close>: the queue holds pairs of a vertex and the path that led to
  it. Reading the adjacency of a vertex that is not in the store raises \<open>KeyError\<close>.
\<close>

function bfs ::
  "(ident \<times> node) list \<Rightarrow> ident \<Rightarrow> ident pyset \<Rightarrow> (ident \<times> ident list) list \<Rightarrow>
     error + ident list option" where
  "bfs ns end_key visited [] = Inr None"
| "bfs ns end_key visited ((current_key, path) # queue) =
     (if current_key = end_key then Inr (Some path)
      else if current_key \<notin> set visited
      then (case map_of ns current_key of
              None \<Rightarrow> Inl KeyError
            | Some data \<Rightarrow>
                bfs ns end_key (set_add current_key visited)
                  (queue @ map (\<lambda>neighbor. (neighbor, path @ [neighbor]))
                             (filter (\<lambda>neighbor. neighbor \<notin> set (set_add current_key visited))
                                (map fst (edges data)))))
      else bfs ns end_key visited queue)"
  by pat_completeness auto
termination
proof (relation "measures [\<lambda>(ns, e, visited, queue). card (fst ` set ns - set visited),
                             \<lambda>(ns, e, visited, queue). length queue]", goal_cases)
  case 1
  show ?case by simp
next
  case (2 ns end_key visited current_key path queue data)
  have "current_key \<in> fst ` set ns"
    using 2(3) by (metis map_of_SomeD fst_conv image_eqI)
  then have "fst ` set ns - insert current_key (set visited) \<subset> fst ` set ns - set visited"
    using 2(2) by auto
  then have "card (fst ` set ns - insert current_key (set visited))
               < card (fst ` set ns - set visited)"
    by (intro psubset_card_mono) auto
  then show ?case using 2(2) by (simp add: set_add_def)
next
  case 3
  then show ?case by simp
qed

declare bfs.simps [simp del]

definition find_path :: "graph_database \<Rightarrow> ident \<Rightarrow> ident \<Rightarrow> error + ident list option" where
  "find_path g start_key end_key =
     (if \<not> has_key (nodes (db g)) start_key \<or> \<not> has_key (nodes (db g)) end_key
      then Inl KeyError
      else if start_key = end_key then Inr (Some [start_key])
      else bfs (nodes (db g)) end_key [] [(start_key, [start_key])])"

text \<open>
  A route from \<open>a\<close> to \<open>b\<close>: a sequence of vertices that starts at \<open>a\<close>, ends at \<open>b\<close>, and
  in which each vertex lists the next one in its adjacency.
\<close>

definition is_route :: "(ident \<times> node) list \<Rightarrow> ident \<Rightarrow> ident \<Rightarrow> ident list \<Rightarrow> bool" where
  "is_route ns a b p = (p \<noteq> [] \<and> hd p = a \<and> last p = b \<and> successively (has_edge ns) p)"

text \<open>Every vertex named in an adjacency is in the store.\<close>

definition closed_adjacency :: "(ident \<times> node) list \<Rightarrow> bool" where
  "closed_adjacency ns =
     list_all (\<lambda>k. case map_of ns k of
                     None \<Rightarrow> True
                   | Some d \<Rightarrow> list_all (\<lambda>v. has_key ns v) (map fst (edges d)))
       (map fst ns)"

text \<open>
  The loop invariant, for a search that started at \<open>a\<close>: every queued path is a route
  from \<open>a\<close> to its vertex; the queued paths are in order of length and differ by at
  most one vertex in length; and (\<open>covered\<close>) whenever the target has a route of \<open>n\<close>
  vertices from \<open>a\<close>, some queued path extends to the target by a route that avoids the
  visited vertices, within \<open>n\<close> vertices in all.
\<close>

definition queue_ok :: "(ident \<times> node) list \<Rightarrow> ident \<Rightarrow> (ident \<times> ident list) list \<Rightarrow> bool" where
  "queue_ok ns a queue = (\<forall>(v, p) \<in> set queue. is_route ns a v p)"

definition queue_sorted :: "(ident \<times> ident list) list \<Rightarrow> bool" where
  "queue_sorted queue =
     (sorted (map (\<lambda>x. length (snd x)) queue)
      \<and> (\<forall>x \<in> set queue. \<forall>y \<in> set queue. length (snd y) \<le> length (snd x) + 1))"

definition covered ::
  "(ident \<times> node) list \<Rightarrow> ident \<Rightarrow> ident pyset \<Rightarrow> (ident \<times> ident list) list \<Rightarrow> nat \<Rightarrow> bool" where
  "covered ns e visited queue n =
     (\<exists>(v, p) \<in> set queue. \<exists>r. is_route ns v e r \<and> set r \<inter> set visited = {}
         \<and> length p + length r \<le> n + 1)"

text \<open>
  A store of five vertices for the closed examples: the square \<open>A\<close>, \<open>B\<close>, \<open>D\<close>, \<open>C\<close>
  and the isolated vertex \<open>E\<close>.
\<close>

definition square_graph :: graph_database where
  "square_graph =
     \<lparr>db = \<lparr>nodes =
              [(''A'', \<lparr>node_value = [(''name'', VStr ''a'')], edges = [(''B'', []), (''C'', [])]\<rparr>),
               (''B'', \<lparr>node_value = [(''name'', VStr ''b'')], edges = [(''A'', []), (''D'', [])]\<rparr>),
               (''C'', \<lparr>node_value = [(''name'', VStr ''c'')], edges = [(''A'', []), (''D'', [])]\<rparr>),
               (''D'', \<lparr>node_value = [(''name'', VStr ''d'')], edges = [(''B'', []), (''C'', [])]\<rparr>),
               (''E'', \<lparr>node_value = [(''name'', VStr ''e'')], edges = []\<rparr>)],
            indexes = []\<rparr>,
      transaction = None, transaction_history = []\<rparr>"

text \<open>
  A store in which \<open>A\<close> names a neighbour \<open>Z\<close> that is no vertex, as an overwrite import
  of such a file leaves it; \<open>B\<close> is isolated.
\<close>

definition dangling_graph :: graph_database where
  "dangling_graph =
     \<lparr>db = \<lparr>nodes =
              [(''A'', \<lparr>node_value = [(''name'', VStr ''a'')], edges = [(''Z'', [])]\<rparr>),
               (''B'', \<lparr>node_value = [(''name'', VStr ''b'')], edges = []\<rparr>)],
            indexes = []\<rparr>,
      transaction = None, transaction_history = []\<rparr>"

section \<open>Merge import and sessions\<close>

text \<open>
  What \<open>import_database(db_name, import_file, merge=True)\<close> reads from the import
  files, after \<open>json.load\<close>: per vertex id a record that has the required shape
  (\<open>ImportNode\<close>: a \<open>value\<close> dict and an \<open>edges\<close> dict) or has not (\<open>BadNode\<close>); per
  edge a dict of properties (with scalar values) or something else (\<open>NotADict\<close>).
\<close>

datatype import_props = NotADict | Props "(string \<times> pyval) list"

datatype import_node = BadNode | ImportNode attrs "(ident \<times> import_props) list"

type_synonym import_nodes = "(ident \<times> import_node) list"
type_synonym import_indexes = "(string \<times> (string \<times> ident list) list) list"

text \<open>The recognised properties of one imported edge: \<open>label\<close> as a string, \<open>weight\<close> if numeric.\<close>

definition valid_props :: "runtime \<Rightarrow> (string \<times> pyval) list \<Rightarrow> edge_props" where
  "valid_props R props =
     (let p1 = (case map_of props ''label'' of
                  None \<Rightarrow> []
                | Some l \<Rightarrow> AList.update ''label'' (VStr (py_str R l)) []);
          p2 = (case map_of props ''weight'' of
                  None \<Rightarrow> p1
                | Some w \<Rightarrow> if is_int_or_float w then AList.update ''weight'' w p1 else p1)
      in p2)"

definition valid_edges :: "runtime \<Rightarrow> (ident \<times> import_props) list \<Rightarrow> (ident \<times> edge_props) list"
  where
  "valid_edges R es =
     fold (\<lambda>(target_id, props) acc.
             (case props of
                NotADict \<Rightarrow> acc
              | Props ps \<Rightarrow> AList.update target_id (valid_props R ps) acc))
          es []"

text \<open>The validation loop: the first record of the wrong shape raises \<open>ValueError\<close>.\<close>

fun validate_import ::
  "runtime \<Rightarrow> import_nodes \<Rightarrow> error + (ident \<times> attrs \<times> (ident \<times> edge_props) list) list" where
  "validate_import R [] = Inr []"
| "validate_import R ((node_id, BadNode) # rest) = Inl ValueError"
| "validate_import R ((node_id, ImportNode val es) # rest) =
     (case validate_import R rest of
        Inl e \<Rightarrow> Inl e
      | Inr vs \<Rightarrow> Inr ((node_id, val, valid_edges R es) # vs))"

text \<open>"Merge nodes": a new id is inserted with empty adjacency, a known one has its attributes updated.\<close>

definition merge_node :: "ident \<Rightarrow> attrs \<Rightarrow> (ident \<times> node) list \<Rightarrow> (ident \<times> node) list" where
  "merge_node node_id val ns =
     (case map_of ns node_id of
        None \<Rightarrow> AList.update node_id \<lparr>node_value = val, edges = []\<rparr> ns
      | Some d \<Rightarrow> AList.update node_id (d\<lparr>node_value := dict_update (node_value d) val\<rparr>) ns)"

text \<open>
  "Merge edges": when the target is in the store the properties are written on both
  sides (\<open>node_id\<close> itself is in the store by then: every imported id was merged in
  before).
\<close>

definition merge_edge ::
  "ident \<Rightarrow> ident \<Rightarrow> edge_props \<Rightarrow> (ident \<times> node) list \<Rightarrow> (ident \<times> node) list" where
  "merge_edge node_id target_id props ns =
     (if has_key ns target_id
      then set_edge target_id node_id props (set_edge node_id target_id props ns)
      else ns)"

definition merge_index :: "(string \<times> ident list) list \<Rightarrow> index \<Rightarrow> index" where
  "merge_index value_dict idx =
     fold (\<lambda>(value_key, node_ids) acc.
             AList.update value_key (set_update (index_get acc value_key) node_ids) acc)
          value_dict idx"

definition merge_indexes :: "import_indexes \<Rightarrow> (string \<times> index) list \<Rightarrow> (string \<times> index) list"
  where
  "merge_indexes imp ixs =
     fold (\<lambda>(attr, value_dict) acc.
             AList.update attr
               (merge_index value_dict (case map_of acc attr of None \<Rightarrow> [] | Some i \<Rightarrow> i)) acc)
          imp ixs"

definition merge_nodes ::
  "(ident \<times> attrs \<times> (ident \<times> edge_props) list) list \<Rightarrow> (ident \<times> node) list \<Rightarrow>
     (ident \<times> node) list" where
  "merge_nodes vs ns = fold (\<lambda>(node_id, val, es) acc. merge_node node_id val acc) vs ns"

definition merge_edges ::
  "(ident \<times> attrs \<times> (ident \<times> edge_props) list) list \<Rightarrow> (ident \<times> node) list \<Rightarrow>
     (ident \<times> node) list" where
  "merge_edges vs ns =
     fold (\<lambda>(node_id, val, es) acc.
             fold (\<lambda>(target_id, props) acc1. merge_edge node_id target_id props acc1) es acc)
          vs ns"

text \<open>The merge, on the database that \<open>GraphDatabase(db_file)\<close> loaded from the files.\<close>

definition import_merge ::
  "runtime \<Rightarrow> import_nodes \<Rightarrow> import_indexes \<Rightarrow> database \<Rightarrow> error + database" where
  "import_merge R import_nodes_data import_indexes_data d =
     (case validate_import R import_nodes_data of
        Inl e \<Rightarrow> Inl e
      | Inr vs \<Rightarrow>
          Inr \<lparr>nodes = merge_edges vs (merge_nodes vs (nodes d)),
               indexes = merge_indexes import_indexes_data (indexes d)\<rparr>)"

text \<open>
  A session of the catalog on the database in use: the instance the catalog holds
  (\<open>active_db_instance\<close>) and what the two companion files hold (\<open>stored\<close>). A call
  that succeeds and saves writes the database of the instance to the files; a merge
  import works on the files and, when it succeeds, replaces the instance by one loaded
  from them. Loading gives back what was saved.
\<close>

record session =
  active_db_instance :: graph_database
  stored :: database

datatype command = Call op | ImportMerge import_nodes import_indexes

fun saves :: "op \<Rightarrow> graph_database \<Rightarrow> bool" where
  "saves Begin g = False"
| "saves Commit g = False"
| "saves Stop g = False"
| "saves Rollback g = (transaction_history g \<noteq> [])"
| "saves c g = True"

fun exec_command :: "runtime \<Rightarrow> command \<Rightarrow> session \<Rightarrow> session" where
  "exec_command R (Call c) s =
     (let (err, g1) = apply_op R c (active_db_instance s)
      in \<lparr>active_db_instance = g1,
          stored = (if err = None \<and> saves c (active_db_instance s) then db g1 else stored s)\<rparr>)"
| "exec_command R (ImportMerge import_nodes_data import_indexes_data) s =
     (case import_merge R import_nodes_data import_indexes_data (stored s) of
        Inl e \<Rightarrow> s
      | Inr d \<Rightarrow>
          \<lparr>active_db_instance = \<lparr>db = d, transaction = None, transaction_history = []\<rparr>,
           stored = d\<rparr>)"

fun exec :: "runtime \<Rightarrow> command list \<Rightarrow> session \<Rightarrow> session" where
  "exec R [] s = s"
| "exec R (c # cs) s = exec R cs (exec_command R c s)"

definition new_session :: session where
  "new_session = \<lparr>active_db_instance = new_graph_database, stored = db new_graph_database\<rparr>"

text \<open>
  \<open>uuid4()\<close> draws an identifier that no vertex of the store has: along a run, every
  \<open>add_node\<close> is given such an identifier.
\<close>

fun fresh_id :: "command \<Rightarrow> session \<Rightarrow> bool" where
  "fresh_id (Call (AddNode new_id val)) s =
     (\<not> has_key (nodes (db (active_db_instance s))) new_id)"
| "fresh_id c s = True"

fun fresh_ids :: "runtime \<Rightarrow> command list \<Rightarrow> session \<Rightarrow> bool" where
  "fresh_ids R [] s = True"
| "fresh_ids R (c # cs) s = (fresh_id c s \<and> fresh_ids R cs (exec_command R c s))"

text \<open>
  The edge record that \<open>a\<close> holds for \<open>b\<close>, if any. The adjacency is symmetric when \<open>a\<close>
  holds a record for \<open>b\<close> exactly when \<open>b\<close> holds one for \<open>a\<close>, and the two are equal.
\<close>

definition edge_record :: "(ident \<times> node) list \<Rightarrow> ident \<Rightarrow> ident \<Rightarrow> edge_props option" where
  "edge_record ns a b = (case map_of ns a of None \<Rightarrow> None | Some d \<Rightarrow> map_of (edges d) b)"

definition symmetric_adjacency :: "(ident \<times> node) list \<Rightarrow> bool" where
  "symmetric_adjacency ns = (\<forall>a b. edge_record ns a b = edge_record ns b a)"

text \<open>A dict has each key once: the adjacency of a vertex lists each neighbour once.\<close>

definition edges_distinct :: "(ident \<times> node) list \<Rightarrow> bool" where
  "edges_distinct ns = (\<forall>a d. map_of ns a = Some d \<longrightarrow> distinct (map fst (edges d)))"

definition good_db :: "database \<Rightarrow> bool" where
  "good_db d = (symmetric_adjacency (nodes d) \<and> edges_distinct (nodes d))"

definition good_instance :: "graph_database \<Rightarrow> bool" where
  "good_instance g = (good_db (db g) \<and> list_all good_db (transaction_history g))"

definition session_ok :: "session \<Rightarrow> bool" where
  "session_ok s = (good_instance (active_db_instance s) \<and> good_db (stored s))"

text \<open>
  A run for the closed examples: two vertices, an edge between them, a merge import that
  brings a third vertex with an edge to the first, and the deletion of the second.
\<close>

definition sample_run :: "command list" where
  "sample_run =
     [Call (AddNode ''A'' [(''name'', VStr ''Alice''), (''age'', VInt 30)]),
      Call (AddNode ''B'' [(''name'', VStr ''Bob''), (''age'', VInt 25)]),
      Call (AddEdge ''A'' ''B'' (Some (VStr ''knows'')) (Some (VInt 2))),
      ImportMerge [(''C'', ImportNode [(''name'', VStr ''C'')]
                              [(''A'', Props [(''label'', VStr ''met'')])])] [],
      Call (DeleteNode ''B'')]"

text \<open>
  \<open>import_database\<close> in its default mode (\<open>merge=False\<close>): after the same validation
  the import, with the recognised edge properties only, is written over the two
  companion files as it is, and the instance is replaced by one loaded from them.
\<close>

definition import_overwrite ::
  "runtime \<Rightarrow> import_nodes \<Rightarrow> import_indexes \<Rightarrow> error + database" where
  "import_overwrite R import_nodes_data import_indexes_data =
     (case validate_import R import_nodes_data of
        Inl e \<Rightarrow> Inl e
      | Inr vs \<Rightarrow>
          Inr \<lparr>nodes = map (\<lambda>(node_id, val, es). (node_id, \<lparr>node_value = val, edges = es\<rparr>)) vs,
               indexes =
                 map (\<lambda>(attr, value_dict).
                        (attr, map (\<lambda>(value_key, node_ids). (value_key, set_update [] node_ids))
                                 value_dict))
                     import_indexes_data\<rparr>)"

definition exec_overwrite ::
  "runtime \<Rightarrow> import_nodes \<Rightarrow> import_indexes \<Rightarrow> session \<Rightarrow> session" where
  "exec_overwrite R import_nodes_data import_indexes_data s =
     (case import_overwrite R import_nodes_data import_indexes_data of
        Inl e \<Rightarrow> s
      | Inr d \<Rightarrow>
          \<lparr>active_db_instance = \<lparr>db = d, transaction = None, transaction_history = []\<rparr>,
           stored = d\<rparr>)"

section \<open>Transactions: the stopped state\<close>

lemma snapshot_transaction: "transaction (snapshot g) = transaction g"
  by (simp add: snapshot_def)

lemma apply_op_stopped:
  "transaction g = Some False \<Longrightarrow> transaction (snd (apply_op R c g)) = Some False"
  by (cases c)
     (auto simp: add_node_def update_node_def delete_node_def add_edge_def delete_edge_def
        create_index_def drop_index_def begin_transaction_def commit_transaction_def
        rollback_transaction_def stop_transaction_def no_transaction_def Let_def
        snapshot_transaction
      split: option.splits prod.splits if_splits)

lemma run_stopped:
  "transaction g = Some False \<Longrightarrow> transaction (run R cs g) = Some False"
  by (induction cs arbitrary: g) (simp_all add: apply_op_stopped)

lemma stop_transaction_stopped:
  "stop_transaction g = (None, g1) \<Longrightarrow> transaction g1 = Some False"
  by (auto simp: stop_transaction_def split: if_splits)

text \<open>
  Claim C9. Once \<open>stop_transaction\<close> has succeeded on an instance, then after any
  further sequence of calls on that instance \<open>begin_transaction\<close>,
  \<open>commit_transaction\<close>, \<open>rollback_transaction\<close> and \<open>stop_transaction\<close> each raise
  (\<open>ValueError\<close>) and leave the instance as it is: the flag stays \<open>False\<close>, which
  \<open>begin_transaction\<close> does not take for \<open>None\<close>.
\<close>

theorem stopped_transaction_is_final:
  assumes "stop_transaction g = (None, g1)"
  shows "begin_transaction (run R cs g1) = (Some ValueError, run R cs g1)
       \<and> commit_transaction (run R cs g1) = (Some ValueError, run R cs g1)
       \<and> rollback_transaction (run R cs g1) = (Some ValueError, run R cs g1)
       \<and> stop_transaction (run R cs g1) = (Some ValueError, run R cs g1)
       \<and> transaction (run R cs g1) = Some False"
proof -
  have "transaction g1 = Some False"
    using assms by (rule stop_transaction_stopped)
  then have "transaction (run R cs g1) = Some False"
    by (rule run_stopped)
  then show ?thesis
    by (simp add: begin_transaction_def commit_transaction_def rollback_transaction_def
        stop_transaction_def no_transaction_def)
qed

theorem stopped_transaction_is_final_witness:
  "stop_transaction (snd (begin_transaction new_graph_database))
     = (None, new_graph_database\<lparr>transaction := Some False\<rparr>)
   \<and> begin_transaction
         (run plain_runtime [AddNode ''n1'' [(''name'', VStr ''D'')], Begin]
            (new_graph_database\<lparr>transaction := Some False\<rparr>))
       = (Some ValueError,
          run plain_runtime [AddNode ''n1'' [(''name'', VStr ''D'')], Begin]
            (new_graph_database\<lparr>transaction := Some False\<rparr>))
   \<and> transaction
         (run plain_runtime [AddNode ''n1'' [(''name'', VStr ''D'')], Begin]
            (new_graph_database\<lparr>transaction := Some False\<rparr>)) = Some False"
proof -
  have h: "stop_transaction (snd (begin_transaction new_graph_database))
             = (None, new_graph_database\<lparr>transaction := Some False\<rparr>)"
    by (simp add: stop_transaction_def begin_transaction_def new_graph_database_def
        no_transaction_def)
  show ?thesis
    using h stopped_transaction_is_final [OF h, of plain_runtime
        "[AddNode ''n1'' [(''name'', VStr ''D'')], Begin]"]
    by simp
qed

section \<open>Snapshots and rollback\<close>

lemma snapshot_active:
  "transaction g = Some True \<Longrightarrow>
     snapshot g = g\<lparr>transaction_history := transaction_history g @ [db g]\<rparr>"
  by (simp add: snapshot_def)

lemma rollback_after_push:
  "transaction g = Some True \<Longrightarrow>
   rollback_transaction (g\<lparr>transaction_history := transaction_history g @ [db g], db := d\<rparr>)
     = (None, g)"
  by (simp add: rollback_transaction_def no_transaction_def)

lemma apply_op_pushes:
  assumes "transaction g = Some True" "snapshotting c" "apply_op R c g = (None, g')"
  shows "\<exists>d. g' = g\<lparr>transaction_history := transaction_history g @ [db g], db := d\<rparr>"
  using assms
  by (cases c)
     (auto simp: add_node_def update_node_def delete_node_def add_edge_def delete_edge_def
        Let_def snapshot_active
      split: option.splits prod.splits if_splits)

text \<open>
  Claim C5, as amended. While a transaction is open and active, every successful
  \<open>add_node\<close>, \<open>update_node\<close>, \<open>delete_node\<close>, \<open>add_edge\<close> or \<open>delete_edge\<close> pushes a
  copy of the whole database (nodes and indexes) as it was before the call onto the
  snapshot stack, and a \<open>rollback_transaction\<close> right after it gives back exactly the
  instance as it was before the call.
\<close>

theorem mutation_then_rollback:
  assumes "transaction g = Some True" "snapshotting c" "apply_op R c g = (None, g')"
  shows "transaction_history g' = transaction_history g @ [db g]
       \<and> rollback_transaction g' = (None, g)"
proof -
  obtain d where g': "g' = g\<lparr>transaction_history := transaction_history g @ [db g], db := d\<rparr>"
    using apply_op_pushes [OF assms] by blast
  show ?thesis
    unfolding g' using rollback_after_push [OF assms(1)] by simp
qed

theorem mutation_then_rollback_witness:
  "transaction (new_graph_database\<lparr>transaction := Some True\<rparr>) = Some True
   \<and> snapshotting (AddNode ''n1'' [(''name'', VStr ''D'')])
   \<and> apply_op plain_runtime (AddNode ''n1'' [(''name'', VStr ''D'')])
         (new_graph_database\<lparr>transaction := Some True\<rparr>)
       = (None,
          \<lparr>db = \<lparr>nodes = [(''n1'', \<lparr>node_value = [(''name'', VStr ''D'')], edges = []\<rparr>)],
                 indexes = []\<rparr>,
           transaction = Some True,
           transaction_history = [\<lparr>nodes = [], indexes = []\<rparr>]\<rparr>)
   \<and> rollback_transaction
         \<lparr>db = \<lparr>nodes = [(''n1'', \<lparr>node_value = [(''name'', VStr ''D'')], edges = []\<rparr>)],
                indexes = []\<rparr>,
          transaction = Some True,
          transaction_history = [\<lparr>nodes = [], indexes = []\<rparr>]\<rparr>
       = (None, new_graph_database\<lparr>transaction := Some True\<rparr>)"
proof -
  have h1: "transaction (new_graph_database\<lparr>transaction := Some True\<rparr>) = Some True"
    by simp
  have h2: "snapshotting (AddNode ''n1'' [(''name'', VStr ''D'')])"
    by simp
  have h3: "apply_op plain_runtime (AddNode ''n1'' [(''name'', VStr ''D'')])
              (new_graph_database\<lparr>transaction := Some True\<rparr>)
            = (None,
               \<lparr>db = \<lparr>nodes = [(''n1'', \<lparr>node_value = [(''name'', VStr ''D'')], edges = []\<rparr>)],
                      indexes = []\<rparr>,
                transaction = Some True,
                transaction_history = [\<lparr>nodes = [], indexes = []\<rparr>]\<rparr>)"
    by (simp add: add_node_def snapshot_def new_graph_database_def)
  have r: "rollback_transaction
         \<lparr>db = \<lparr>nodes = [(''n1'', \<lparr>node_value = [(''name'', VStr ''D'')], edges = []\<rparr>)],
                indexes = []\<rparr>,
          transaction = Some True,
          transaction_history = [\<lparr>nodes = [], indexes = []\<rparr>]\<rparr>
       = (None, new_graph_database\<lparr>transaction := Some True\<rparr>)"
    using mutation_then_rollback [OF h1 h2 h3] by (rule conjunct2)
  show ?thesis
    by (intro conjI h1 h2 h3 r)
qed

text \<open>
  Claim C5 as stated fails for the index calls: \<open>create_index\<close> (and \<open>drop_index\<close>)
  changes the indexes of the database without pushing a snapshot, so inside an open
  transaction a \<open>rollback_transaction\<close> right after it does not undo it.
\<close>

theorem create_index_rollback_counterexample:
  "transaction (new_graph_database\<lparr>transaction := Some True\<rparr>) = Some True
   \<and> is_mutation (CreateIndex ''age'')
   \<and> fst (apply_op plain_runtime (CreateIndex ''age'')
            (new_graph_database\<lparr>transaction := Some True\<rparr>)) = None
   \<and> transaction_history
        (snd (apply_op plain_runtime (CreateIndex ''age'')
               (new_graph_database\<lparr>transaction := Some True\<rparr>))) = []
   \<and> db (snd (rollback_transaction
               (snd (apply_op plain_runtime (CreateIndex ''age'')
                      (new_graph_database\<lparr>transaction := Some True\<rparr>)))))
       = \<lparr>nodes = [], indexes = [(''age'', [])]\<rparr>
   \<and> db (new_graph_database\<lparr>transaction := Some True\<rparr>) = \<lparr>nodes = [], indexes = []\<rparr>"
  by (simp add: new_graph_database_def create_index_def has_key_def
      rollback_transaction_def no_transaction_def)

section \<open>What the query engine does on concrete inputs\<close>

lemmas parse_defs = parse_query_def parse_condition_def parse_comparison_def comparison_ops_def
  strip_def is_space_def starts_with_def is_edge_weight_def lower_def lower_char_def
  match_kw_def upper_def upper_char_def

lemmas eval_defs = query_def eval_attr_def equality_test_def order_test_def has_key_def
  parse_number_def py_int_def is_digit_def digit_value_def dec_value_def set_add_def
  probe_key_def index_get_def narrow_def fold_case_def

lemmas store_defs = add_node_def create_index_def delete_node_def new_graph_database_def
  snapshot_def index_add_def update_index_def index_discard_def set_discard_def

text \<open>
  Claim C1 (the code departs from it). The parser tries \<open>=\<close> before \<open>>=\<close>, \<open><=\<close> and
  \<open>!=\<close>, and \<open>=\<close> occurs in each of them: \<open>age >= 30\<close> becomes the condition
  \<open>('age >', '=', '30')\<close>, likewise for \<open><=\<close> and \<open>!=\<close>. No vertex has an attribute
  named \<open>age >\<close>, so \<open>WHERE age >= 30\<close> finds nothing on a vertex whose age is 30.
\<close>

theorem comparison_operators_parsed_as_equality:
  "parse_condition R ''age >= 30'' = Inr (''age >'', ''='', QStr ''30'')
   \<and> parse_condition R ''age <= 30'' = Inr (''age <'', ''='', QStr ''30'')
   \<and> parse_condition R ''age != 30'' = Inr (''age !'', ''='', QStr ''30'')
   \<and> query R \<lparr>nodes = [(''A'', \<lparr>node_value = [(''age'', VInt 30)], edges = []\<rparr>)],
               indexes = []\<rparr>
         ''WHERE age >= 30'' False False = Inr []"
  by (simp add: parse_defs eval_defs)

text \<open>
  Claim C7 (the code departs from it). A stored boolean passes
  \<open>isinstance(node_val, (int, float))\<close>, so an order comparison treats it as the number
  1 or 0: \<open>WHERE flag > 0\<close> matches a vertex whose \<open>flag\<close> is \<open>True\<close>, and
  \<open>WHERE flag > abc\<close> raises \<open>ValueError\<close> on it. On a stored string the same
  comparisons are false and raise nothing.
\<close>

theorem order_comparison_on_boolean:
  "query R \<lparr>nodes = [(''B'', \<lparr>node_value = [(''flag'', VBool True)], edges = []\<rparr>)],
             indexes = []\<rparr>
      ''WHERE flag > 0'' False False = Inr [(''B'', [(''flag'', VBool True)])]
   \<and> query R \<lparr>nodes = [(''B'', \<lparr>node_value = [(''flag'', VBool True)], edges = []\<rparr>)],
               indexes = []\<rparr>
        ''WHERE flag > abc'' False False = Inl ValueError
   \<and> query R \<lparr>nodes = [(''B'', \<lparr>node_value = [(''flag'', VStr ''yes'')], edges = []\<rparr>)],
               indexes = []\<rparr>
        ''WHERE flag > abc'' False False = Inr []"
  by (simp add: parse_defs eval_defs)

text \<open>
  Claim C8 (the code departs from it). For a stored boolean the branch taken by \<open>=\<close>
  is the numeric one, which reads the literal with \<open>int\<close>: \<open>WHERE flag = true\<close> raises
  \<open>ValueError\<close> as soon as the scan meets a vertex whose \<open>flag\<close> is a boolean, and
  \<open>WHERE flag = 1\<close> matches the vertex whose \<open>flag\<close> is \<open>True\<close>.
\<close>

theorem equality_on_boolean_raises:
  "query R \<lparr>nodes = [(''B'', \<lparr>node_value = [(''flag'', VBool True)], edges = []\<rparr>)],
             indexes = []\<rparr>
      ''WHERE flag = true'' False False = Inl ValueError
   \<and> query R \<lparr>nodes = [(''B'', \<lparr>node_value = [(''flag'', VBool True)], edges = []\<rparr>)],
               indexes = []\<rparr>
        ''WHERE flag = 1'' False False = Inr [(''B'', [(''flag'', VBool True)])]"
  by (simp add: parse_defs eval_defs)

text \<open>
  Claim C3 (the code departs from it). The index stores the string form of a value as
  it is, and the planner probes it with the lowercased literal unless the query is case
  sensitive. After \<open>add_node({"name": "Alice"})\<close> the query \<open>WHERE name = Alice\<close> finds
  the vertex by full scan; after \<open>create_index("name")\<close> on the same vertices the same
  query finds nothing.
\<close>

theorem index_probe_changes_result:
  "query R (db (snd (add_node R ''A'' [(''name'', VStr ''Alice'')] new_graph_database)))
      ''WHERE name = Alice'' False False = Inr [(''A'', [(''name'', VStr ''Alice'')])]
   \<and> query R
        (db (snd (create_index R ''name''
                   (snd (add_node R ''A'' [(''name'', VStr ''Alice'')] new_graph_database)))))
        ''WHERE name = Alice'' False False = Inr []"
  by (simp add: parse_defs eval_defs store_defs)

text \<open>
  Claim C2 (the code departs from it). \<open>delete_node\<close> looks for the lowercased string
  form of the value in the index, where \<open>create_index\<close> and \<open>_update_index\<close> stored
  the string form as it is: after \<open>create_index("name")\<close>,
  \<open>add_node({"name": "Alice"})\<close> and \<open>delete_node\<close> of that vertex, the index still
  lists the deleted vertex under \<open>Alice\<close>.
\<close>

theorem delete_node_leaves_index_entry:
  "db (run R [CreateIndex ''name'', AddNode ''A'' [(''name'', VStr ''Alice'')], DeleteNode ''A'']
         new_graph_database)
   = \<lparr>nodes = [], indexes = [(''name'', [(''Alice'', [''A''])])]\<rparr>"
  by (simp add: store_defs has_key_def set_add_def lower_def lower_char_def)

section \<open>Backup and export never overwrite\<close>

text \<open>
  Claim C10. When one of the two destination files derived from \<open>dest\<close> (its
  \<open>_nodes.json\<close> or its \<open>_indexes.json\<close> companion) already exists,
  \<open>backup_database(name, dest)\<close> and \<open>export_database(name, dest)\<close> raise
  (\<open>ValueError\<close>) and the files are exactly what they were: nothing is created,
  modified or deleted.
\<close>

theorem backup_export_never_overwrite:
  assumes "fs (nodes_path dest) \<noteq> None \<or> fs (indexes_path dest) \<noteq> None"
  shows "backup_database registry name dest fs = (Some ValueError, fs)
       \<and> export_database reformat registry name dest fs = (Some ValueError, fs)"
  using assms
  by (auto simp: backup_database_def export_database_def split: option.splits)

theorem backup_export_never_overwrite_witness:
  "[''x_nodes.json'' \<mapsto> ''{}'', ''bak_indexes.json'' \<mapsto> ''old'']
      (indexes_path ''bak.json'') = Some ''old''
   \<and> backup_database [(''x'', ''x.json'')] ''x'' ''bak.json''
         [''x_nodes.json'' \<mapsto> ''{}'', ''bak_indexes.json'' \<mapsto> ''old'']
       = (Some ValueError, [''x_nodes.json'' \<mapsto> ''{}'', ''bak_indexes.json'' \<mapsto> ''old''])
   \<and> export_database Some [(''x'', ''x.json'')] ''x'' ''bak.json''
         [''x_nodes.json'' \<mapsto> ''{}'', ''bak_indexes.json'' \<mapsto> ''old'']
       = (Some ValueError, [''x_nodes.json'' \<mapsto> ''{}'', ''bak_indexes.json'' \<mapsto> ''old''])"
proof -
  have e: "[''x_nodes.json'' \<mapsto> ''{}'', ''bak_indexes.json'' \<mapsto> ''old'']
             (indexes_path ''bak.json'') = Some ''old''"
    by (simp add: indexes_path_def starts_with_def)
  then have h: "[''x_nodes.json'' \<mapsto> ''{}'', ''bak_indexes.json'' \<mapsto> ''old'']
             (nodes_path ''bak.json'') \<noteq> None
           \<or> [''x_nodes.json'' \<mapsto> ''{}'', ''bak_indexes.json'' \<mapsto> ''old'']
             (indexes_path ''bak.json'') \<noteq> None"
    by simp
  show ?thesis
    using e backup_export_never_overwrite [OF h, of "[(''x'', ''x.json'')]" "''x''" Some]
    by blast
qed

section \<open>Shortest path: correctness of the search\<close>

lemma has_edge_iff:
  "has_edge ns u v \<longleftrightarrow> (\<exists>d. map_of ns u = Some d \<and> v \<in> fst ` set (edges d))"
proof (cases "map_of ns u")
  case None
  then show ?thesis by (simp add: has_edge_def)
next
  case (Some d)
  then show ?thesis by (simp add: has_edge_def has_key_def map_of_eq_None_iff)
qed

lemma closed_adjacencyD:
  assumes "closed_adjacency ns" "has_edge ns u v"
  shows "has_key ns v"
proof -
  from assms(2) obtain d where d: "map_of ns u = Some d" "v \<in> fst ` set (edges d)"
    by (auto simp: has_edge_iff)
  from d(1) have "u \<in> set (map fst ns)"
    by (metis map_of_SomeD fst_conv image_eqI set_map)
  with assms(1) have "case map_of ns u of
                        None \<Rightarrow> True
                      | Some d \<Rightarrow> list_all (\<lambda>v. has_key ns v) (map fst (edges d))"
    unfolding closed_adjacency_def list_all_iff by blast
  with d show ?thesis
    by (auto simp: list_all_iff)
qed

lemma queue_sorted_tail: "queue_sorted (x # queue) \<Longrightarrow> queue_sorted queue"
  by (auto simp: queue_sorted_def)

lemma queue_sorted_front:
  "queue_sorted ((c, p) # queue) \<Longrightarrow> x \<in> set ((c, p) # queue) \<Longrightarrow> length p \<le> length (snd x)"
  by (auto simp: queue_sorted_def)

lemma queue_sorted_expand:
  assumes "queue_sorted ((c, p) # queue)"
  shows "queue_sorted (queue @ map (\<lambda>n. (n, p @ [n])) xs)"
proof -
  have lo: "\<And>x. x \<in> set queue \<Longrightarrow> length p \<le> length (snd x)"
    using assms by (auto simp: queue_sorted_def)
  have hi: "\<And>x. x \<in> set queue \<Longrightarrow> length (snd x) \<le> length p + 1"
    using assms by (auto simp: queue_sorted_def)
  have s1: "sorted (map (\<lambda>x. length (snd x)) queue)"
    using assms by (auto simp: queue_sorted_def)
  have s2: "sorted (map (\<lambda>x. length (snd x)) (map (\<lambda>n. (n, p @ [n])) xs))"
    by (induction xs) auto
  have "sorted (map (\<lambda>x. length (snd x)) (queue @ map (\<lambda>n. (n, p @ [n])) xs))"
    using s1 s2 hi by (auto simp: sorted_append)
  moreover have "\<forall>x \<in> set (queue @ map (\<lambda>n. (n, p @ [n])) xs).
                 \<forall>y \<in> set (queue @ map (\<lambda>n. (n, p @ [n])) xs).
                   length (snd y) \<le> length (snd x) + 1"
    using lo hi by (fastforce simp: le_Suc_eq)
  ultimately show ?thesis by (simp add: queue_sorted_def)
qed

lemma queue_ok_tail: "queue_ok ns a (x # queue) \<Longrightarrow> queue_ok ns a queue"
  by (auto simp: queue_ok_def)

lemma queue_ok_expand:
  assumes "queue_ok ns a ((c, p) # queue)" "map_of ns c = Some data"
  shows "queue_ok ns a
           (queue @ map (\<lambda>n. (n, p @ [n])) (filter P (map fst (edges data))))"
proof -
  have p: "is_route ns a c p"
    using assms(1) by (simp add: queue_ok_def)
  have "is_route ns a n (p @ [n])" if "n \<in> fst ` set (edges data)" for n
  proof -
    have "has_edge ns c n"
      using that assms(2) by (auto simp: has_edge_iff)
    with p show ?thesis
      by (auto simp: is_route_def successively_append_iff)
  qed
  with assms(1) show ?thesis
    by (auto simp: queue_ok_def)
qed

lemma covered_skip:
  assumes "covered ns e visited ((c, p) # queue) n" "c \<in> set visited"
  shows "covered ns e visited queue n"
proof -
  from assms(1) obtain v pw r where w: "(v, pw) \<in> set ((c, p) # queue)"
      "is_route ns v e r" "set r \<inter> set visited = {}" "length pw + length r \<le> n + 1"
    by (auto simp: covered_def)
  from w(2) have "v \<in> set r"
    by (auto simp: is_route_def)
  with w(3) assms(2) have "v \<noteq> c" by auto
  with w show ?thesis
    by (auto simp: covered_def)
qed

lemma covered_front:
  assumes "covered ns e visited ((c, p) # queue) n" "queue_sorted ((c, p) # queue)"
  shows "length p \<le> n"
proof -
  from assms(1) obtain v pw r where w: "(v, pw) \<in> set ((c, p) # queue)"
      "is_route ns v e r" "length pw + length r \<le> n + 1"
    by (auto simp: covered_def)
  have "length p \<le> length pw"
    using queue_sorted_front [OF assms(2) w(1)] by simp
  moreover have "1 \<le> length r"
    using w(2) by (cases r) (auto simp: is_route_def)
  ultimately show ?thesis using w(3) by simp
qed

lemma covered_expand:
  assumes cov: "covered ns e visited ((c, p) # queue) n"
    and srt: "queue_sorted ((c, p) # queue)"
    and ne: "c \<noteq> e" and data: "map_of ns c = Some data"
  shows "covered ns e (set_add c visited)
           (queue @ map (\<lambda>n. (n, p @ [n]))
                      (filter (\<lambda>n. n \<notin> set (set_add c visited)) (map fst (edges data)))) n"
proof -
  from cov obtain v pw r where w: "(v, pw) \<in> set ((c, p) # queue)"
      "is_route ns v e r" "set r \<inter> set visited = {}" "length pw + length r \<le> n + 1"
    by (auto simp: covered_def)
  have vis: "set (set_add c visited) = insert c (set visited)"
    by (auto simp: set_add_def)
  show ?thesis
  proof (cases "c \<in> set r")
    case False
    from w(2) have "v \<in> set r"
      by (auto simp: is_route_def)
    with False have "v \<noteq> c" by auto
    with w(1) have "(v, pw) \<in> set queue" by auto
    moreover have "set r \<inter> set (set_add c visited) = {}"
      using False w(3) vis by auto
    ultimately show ?thesis
      using w(2) w(4) unfolding covered_def by fastforce
  next
    case True
    then obtain ys zs where r: "r = ys @ c # zs" "c \<notin> set zs"
      by (meson split_list_last)
    from w(2) r ne have zs: "zs \<noteq> []"
      by (auto simp: is_route_def)
    then obtain m zs' where m: "zs = m # zs'"
      by (cases zs) auto
    have succ: "successively (has_edge ns) r"
      using w(2) by (simp add: is_route_def)
    have edge: "has_edge ns c m" and rest: "successively (has_edge ns) zs"
      using succ unfolding r m
      by (auto simp: successively_append_iff successively_Cons)
    have route: "is_route ns m e zs"
      using w(2) rest zs unfolding r m by (auto simp: is_route_def)
    have m_new: "m \<notin> set (set_add c visited)"
      using r(2) w(3) unfolding vis r(1) m by auto
    have "m \<in> fst ` set (edges data)"
      using edge data by (auto simp: has_edge_iff)
    with m_new have inq: "(m, p @ [m]) \<in> set (queue @ map (\<lambda>n. (n, p @ [n]))
               (filter (\<lambda>n. n \<notin> set (set_add c visited)) (map fst (edges data))))"
      by auto
    have avoid: "set zs \<inter> set (set_add c visited) = {}"
      using r(2) w(3) unfolding vis r(1) by auto
    have "length p \<le> length pw"
      using queue_sorted_front [OF srt w(1)] by simp
    then have len: "length (p @ [m]) + length zs \<le> n + 1"
      using w(4) unfolding r(1) by simp
    show ?thesis
      unfolding covered_def using inq route avoid len by blast
  qed
qed

text \<open>What the loop returns, from any state that satisfies the invariant.\<close>

lemma bfs_invariant:
  assumes "queue_ok ns a queue" "queue_sorted queue"
  shows "case bfs ns e visited queue of
           Inl err \<Rightarrow> True
         | Inr None \<Rightarrow> (\<forall>n. \<not> covered ns e visited queue n)
         | Inr (Some p) \<Rightarrow>
             is_route ns a e p \<and> (\<forall>n. covered ns e visited queue n \<longrightarrow> length p \<le> n)"
  using assms
proof (induction ns e visited queue rule: bfs.induct)
  case (1 ns end_key visited)
  then show ?case by (simp add: covered_def bfs.simps)
next
  case (2 ns end_key visited current_key path queue)
  note ok = "2.prems"(1) and srt = "2.prems"(2)
  show ?case
  proof (cases "current_key = end_key")
    case True
    have "is_route ns a end_key path"
      using ok True by (simp add: queue_ok_def)
    moreover have "\<forall>n. covered ns end_key visited ((current_key, path) # queue) n
                      \<longrightarrow> length path \<le> n"
      using covered_front srt by blast
    ultimately show ?thesis using True by (simp add: bfs.simps)
  next
    case ne: False
    show ?thesis
    proof (cases "current_key \<in> set visited")
      case True
      have ih: "case bfs ns end_key visited queue of
           Inl err \<Rightarrow> True
         | Inr None \<Rightarrow> (\<forall>n. \<not> covered ns end_key visited queue n)
         | Inr (Some p) \<Rightarrow>
             is_route ns a end_key p
             \<and> (\<forall>n. covered ns end_key visited queue n \<longrightarrow> length p \<le> n)"
        using "2.IH"(2) [OF ne _ queue_ok_tail [OF ok] queue_sorted_tail [OF srt]] True
        by simp
      have step: "\<And>n. covered ns end_key visited ((current_key, path) # queue) n
                    \<Longrightarrow> covered ns end_key visited queue n"
        using covered_skip True by blast
      show ?thesis
        using ih step ne True by (auto simp: bfs.simps split: sum.splits option.splits)
    next
      case False
      show ?thesis
      proof (cases "map_of ns current_key")
        case None
        then show ?thesis using ne False by (simp add: bfs.simps)
      next
        case (Some data)
        let ?v = "set_add current_key visited"
        let ?q = "queue @ map (\<lambda>neighbor. (neighbor, path @ [neighbor]))
                    (filter (\<lambda>neighbor. neighbor \<notin> set ?v) (map fst (edges data)))"
        have ih: "case bfs ns end_key ?v ?q of
             Inl err \<Rightarrow> True
           | Inr None \<Rightarrow> (\<forall>n. \<not> covered ns end_key ?v ?q n)
           | Inr (Some p) \<Rightarrow>
               is_route ns a end_key p \<and> (\<forall>n. covered ns end_key ?v ?q n \<longrightarrow> length p \<le> n)"
          using "2.IH"(1) [OF ne False Some queue_ok_expand [OF ok Some]
              queue_sorted_expand [OF srt]]
          by simp
        have step: "\<And>n. covered ns end_key visited ((current_key, path) # queue) n
                      \<Longrightarrow> covered ns end_key ?v ?q n"
          using covered_expand [OF _ srt ne Some] by blast
        show ?thesis
          using ih step ne False Some by (auto simp: bfs.simps split: sum.splits option.splits)
      qed
    qed
  qed
qed

lemma bfs_no_error:
  assumes "closed_adjacency ns" "\<forall>x \<in> set queue. has_key ns (fst x)"
  shows "bfs ns e visited queue \<noteq> Inl err"
  using assms
proof (induction ns e visited queue rule: bfs.induct)
  case (1 ns end_key visited)
  then show ?case by (simp add: bfs.simps)
next
  case (2 ns end_key visited current_key path queue)
  show ?case
  proof (cases "map_of ns current_key")
    case None
    then show ?thesis using "2.prems"(2) by (simp add: has_key_def bfs.simps)
  next
    case (Some data)
    have "\<forall>n \<in> set (map fst (edges data)). has_key ns n"
      using closed_adjacencyD [OF "2.prems"(1)] Some by (auto simp: has_edge_iff)
    then have "\<forall>x \<in> set (queue @ map (\<lambda>neighbor. (neighbor, path @ [neighbor]))
                  (filter (\<lambda>neighbor. neighbor \<notin> set (set_add current_key visited))
                     (map fst (edges data)))). has_key ns (fst x)"
      using "2.prems"(2) by auto
    then show ?thesis
      using "2.IH" "2.prems" Some by (auto simp: bfs.simps)
  qed
qed

lemma start_invariant:
  "has_key ns a \<Longrightarrow> queue_ok ns a [(a, [a])]" "queue_sorted [(a, [a])]"
  "is_route ns a e q \<Longrightarrow> covered ns e [] [(a, [a])] (length q)"
  by (auto simp: queue_ok_def queue_sorted_def covered_def is_route_def)




section \<open>The adjacency stays symmetric\<close>

lemma has_edge_record: "has_edge ns a b \<longleftrightarrow> edge_record ns a b \<noteq> None"
  by (simp add: has_edge_def edge_record_def has_key_def split: option.splits)

lemma edge_record_no_key: "\<not> has_key ns a \<Longrightarrow> edge_record ns a b = None"
  by (simp add: edge_record_def has_key_def)

lemma edge_record_set_edge:
  "edge_record (set_edge k1 k2 p ns) a b =
     (if a = k1 \<and> b = k2 \<and> has_key ns k1 then Some p else edge_record ns a b)"
  by (auto simp: set_edge_def edge_record_def has_key_def update_conv' split: option.splits)

lemma edge_record_del_edge:
  "edge_record (del_edge k1 k2 ns) a b =
     (if a = k1 \<and> b = k2 then None else edge_record ns a b)"
  by (auto simp: del_edge_def edge_record_def update_conv' delete_conv' split: option.splits)

lemma has_key_set_edge [simp]: "has_key (set_edge k1 k2 p ns) a = has_key ns a"
  by (auto simp: set_edge_def has_key_def update_conv' split: option.splits)

lemma has_key_del_edge [simp]: "has_key (del_edge k1 k2 ns) a = has_key ns a"
  by (auto simp: del_edge_def has_key_def update_conv' split: option.splits)

lemma edges_distinct_set_edge: "edges_distinct ns \<Longrightarrow> edges_distinct (set_edge k1 k2 p ns)"
  by (auto simp: edges_distinct_def set_edge_def update_conv' distinct_update
      split: option.splits if_splits)

lemma edges_distinct_del_edge: "edges_distinct ns \<Longrightarrow> edges_distinct (del_edge k1 k2 ns)"
  by (auto simp: edges_distinct_def del_edge_def update_conv' distinct_delete
      split: option.splits if_splits)

lemma edge_record_delete:
  "edge_record (AList.delete k ns) a b = (if a = k then None else edge_record ns a b)"
  by (simp add: edge_record_def delete_conv')

lemma edges_distinct_delete: "edges_distinct ns \<Longrightarrow> edges_distinct (AList.delete k ns)"
  by (auto simp: edges_distinct_def delete_conv' split: if_splits)

lemma edge_record_same_edges:
  "map_of ns k = Some d \<Longrightarrow> edges d' = edges d \<Longrightarrow>
     edge_record (AList.update k d' ns) a b = edge_record ns a b"
  by (simp add: edge_record_def update_conv')

lemma edges_distinct_same_edges:
  "edges_distinct ns \<Longrightarrow> map_of ns k = Some d \<Longrightarrow> edges d' = edges d \<Longrightarrow>
     edges_distinct (AList.update k d' ns)"
  by (auto simp: edges_distinct_def update_conv' split: if_splits)

lemma edge_record_new_node:
  "edge_record (AList.update k \<lparr>node_value = v, edges = []\<rparr> ns) a b =
     (if a = k then None else edge_record ns a b)"
  by (simp add: edge_record_def update_conv')

lemma edges_distinct_new_node:
  "edges_distinct ns \<Longrightarrow> edges_distinct (AList.update k \<lparr>node_value = v, edges = []\<rparr> ns)"
  by (auto simp: edges_distinct_def update_conv' split: if_splits)

lemma symmetric_new_node:
  assumes "symmetric_adjacency ns" "\<not> has_key ns k"
  shows "symmetric_adjacency (AList.update k \<lparr>node_value = v, edges = []\<rparr> ns)"
proof -
  have none: "edge_record ns a k = None" for a
    using assms by (metis symmetric_adjacency_def edge_record_no_key)
  show ?thesis
    unfolding symmetric_adjacency_def
  proof (intro allI)
    fix a b
    have "edge_record ns a b = edge_record ns b a"
      using assms(1) by (simp add: symmetric_adjacency_def)
    then show "edge_record (AList.update k \<lparr>node_value = v, edges = []\<rparr> ns) a b
                 = edge_record (AList.update k \<lparr>node_value = v, edges = []\<rparr> ns) b a"
      unfolding edge_record_new_node using none [of a] none [of b]
      by (cases "a = k"; cases "b = k") simp_all
  qed
qed

lemma symmetric_set_both:
  assumes "symmetric_adjacency ns" "has_key ns k1" "has_key ns k2"
  shows "symmetric_adjacency (set_edge k2 k1 p (set_edge k1 k2 p ns))"
  unfolding symmetric_adjacency_def
proof (intro allI)
  fix a b
  have "edge_record ns a b = edge_record ns b a"
    using assms(1) by (simp add: symmetric_adjacency_def)
  then show "edge_record (set_edge k2 k1 p (set_edge k1 k2 p ns)) a b
               = edge_record (set_edge k2 k1 p (set_edge k1 k2 p ns)) b a"
    unfolding edge_record_set_edge has_key_set_edge using assms(2,3)
    by (cases "a = k1"; cases "b = k2"; cases "a = k2"; cases "b = k1") simp_all
qed

lemma symmetric_del_both:
  assumes "symmetric_adjacency ns"
  shows "symmetric_adjacency (del_edge k2 k1 (del_edge k1 k2 ns))"
  unfolding symmetric_adjacency_def
proof (intro allI)
  fix a b
  have "edge_record ns a b = edge_record ns b a"
    using assms by (simp add: symmetric_adjacency_def)
  then show "edge_record (del_edge k2 k1 (del_edge k1 k2 ns)) a b
               = edge_record (del_edge k2 k1 (del_edge k1 k2 ns)) b a"
    unfolding edge_record_del_edge
    by (cases "a = k1"; cases "b = k2"; cases "a = k2"; cases "b = k1") simp_all
qed

lemma symmetric_del_loop:
  assumes "symmetric_adjacency ns"
  shows "symmetric_adjacency (del_edge k k ns)"
  unfolding symmetric_adjacency_def
proof (intro allI)
  fix a b
  have "edge_record ns a b = edge_record ns b a"
    using assms by (simp add: symmetric_adjacency_def)
  then show "edge_record (del_edge k k ns) a b = edge_record (del_edge k k ns) b a"
    unfolding edge_record_del_edge
    by (cases "a = k"; cases "b = k") simp_all
qed

text \<open>The loop of \<open>delete_node\<close> over distinct neighbours that all list \<open>key\<close> does not raise.\<close>

lemma unlink_all_ok:
  assumes "distinct targets" "\<forall>t \<in> set targets. edge_record ns t key \<noteq> None"
  shows "\<exists>ns'. unlink_all key targets ns = (None, ns')
            \<and> (\<forall>a b. edge_record ns' a b
                        = (if b = key \<and> a \<in> set targets then None else edge_record ns a b))
            \<and> (edges_distinct ns \<longrightarrow> edges_distinct ns')"
  using assms
proof (induction targets arbitrary: ns)
  case Nil
  then show ?case by simp
next
  case (Cons t rest)
  let ?ns1 = "del_edge t key ns"
  have d: "distinct rest" and t: "t \<notin> set rest"
    using Cons.prems(1) by auto
  have "\<forall>u \<in> set rest. edge_record ?ns1 u key \<noteq> None"
    using Cons.prems(2) t by (auto simp: edge_record_del_edge)
  from Cons.IH [OF d this] obtain ns' where r: "unlink_all key rest ?ns1 = (None, ns')"
      "\<forall>a b. edge_record ns' a b
                = (if b = key \<and> a \<in> set rest then None else edge_record ?ns1 a b)"
      "edges_distinct ?ns1 \<longrightarrow> edges_distinct ns'"
    by blast
  have "has_edge ns t key"
    using Cons.prems(2) by (simp add: has_edge_record)
  then have "unlink_all key (t # rest) ns = (None, ns')"
    using r(1) by simp
  moreover have "\<forall>a b. edge_record ns' a b
                  = (if b = key \<and> a \<in> set (t # rest) then None else edge_record ns a b)"
    using r(2) by (auto simp: edge_record_del_edge)
  moreover have "edges_distinct ns \<longrightarrow> edges_distinct ns'"
    using r(3) edges_distinct_del_edge by blast
  ultimately show ?case by blast
qed

lemma delete_node_nodes:
  assumes sym: "symmetric_adjacency ns" and dist: "edges_distinct ns"
    and d: "map_of ns key = Some d"
  shows "\<exists>ns'. unlink_all key (map fst (edges d)) ns = (None, ns')
            \<and> symmetric_adjacency (AList.delete key ns')
            \<and> edges_distinct (AList.delete key ns')"
proof -
  have key_rec: "edge_record ns key b = map_of (edges d) b" for b
    using d by (simp add: edge_record_def)
  have dt: "distinct (map fst (edges d))"
    using dist d by (auto simp: edges_distinct_def)
  have "\<forall>t \<in> set (map fst (edges d)). edge_record ns t key \<noteq> None"
  proof
    fix t assume "t \<in> set (map fst (edges d))"
    then have "map_of (edges d) t \<noteq> None"
      by (simp add: map_of_eq_None_iff)
    then show "edge_record ns t key \<noteq> None"
      using sym key_rec by (metis symmetric_adjacency_def)
  qed
  from unlink_all_ok [OF dt this] obtain ns' where
    r: "unlink_all key (map fst (edges d)) ns = (None, ns')"
      "\<forall>a b. edge_record ns' a b
                = (if b = key \<and> a \<in> set (map fst (edges d)) then None else edge_record ns a b)"
      "edges_distinct ns'"
    using dist by blast
  have out: "edge_record ns a key = None" if "a \<notin> set (map fst (edges d))" for a
  proof -
    have "map_of (edges d) a = None"
      using that by (simp add: map_of_eq_None_iff)
    then show ?thesis
      using sym key_rec by (metis symmetric_adjacency_def)
  qed
  have "symmetric_adjacency (AList.delete key ns')"
    unfolding symmetric_adjacency_def edge_record_delete
  proof (intro allI)
    fix a b
    have "edge_record ns a b = edge_record ns b a"
      using sym by (simp add: symmetric_adjacency_def)
    moreover have "edge_record ns' a b
          = (if b = key \<and> a \<in> set (map fst (edges d)) then None else edge_record ns a b)"
      and "edge_record ns' b a
          = (if a = key \<and> b \<in> set (map fst (edges d)) then None else edge_record ns b a)"
      using r(2) by blast+
    ultimately show "(if a = key then None else edge_record ns' a b)
            = (if b = key then None else edge_record ns' b a)"
      using out [of a] out [of b]
      by (cases "a = key"; cases "b = key"; cases "a \<in> set (map fst (edges d))";
          cases "b \<in> set (map fst (edges d))") simp_all
  qed
  with r(1) r(3) edges_distinct_delete show ?thesis by blast
qed

lemma snapshot_db [simp]: "db (snapshot g) = db g"
  by (simp add: snapshot_def)

lemma snapshot_good: "good_instance g \<Longrightarrow> good_instance (snapshot g)"
  by (simp add: snapshot_def good_instance_def)

lemma good_instance_db:
  "good_instance g \<Longrightarrow> good_db d \<Longrightarrow> good_instance (g\<lparr>db := d\<rparr>)"
  by (simp add: good_instance_def)

lemma add_node_good:
  assumes "good_instance g" "\<not> has_key (nodes (db g)) new_id"
  shows "good_instance (snd (add_node R new_id val g))"
proof (cases "val = []")
  case True
  then show ?thesis using assms(1) by (simp add: add_node_def)
next
  case False
  have g: "good_db (db g)"
    using assms(1) by (simp add: good_instance_def)
  have "good_db \<lparr>nodes = AList.update new_id \<lparr>node_value = val, edges = []\<rparr> (nodes (db g)),
                 indexes = ix\<rparr>" for ix
    using g assms(2) by (simp add: good_db_def symmetric_new_node edges_distinct_new_node)
  then show ?thesis
    using False snapshot_good [OF assms(1)]
    by (simp add: add_node_def Let_def good_instance_db)
qed

lemma update_node_good:
  assumes "good_instance g"
  shows "good_instance (snd (update_node R key new_value g))"
proof (cases "map_of (nodes (db g)) key")
  case None
  then show ?thesis using assms by (simp add: update_node_def)
next
  case (Some d)
  have g: "good_db (db g)"
    using assms by (simp add: good_instance_def)
  have "edge_record (AList.update key (d\<lparr>node_value := v\<rparr>) (nodes (db g))) a b
          = edge_record (nodes (db g)) a b" for v a b
    using Some by (simp add: edge_record_same_edges)
  then have "good_db \<lparr>nodes = AList.update key (d\<lparr>node_value := v\<rparr>) (nodes (db g)), indexes = ix\<rparr>"
    for v ix
    using g Some
    by (simp add: good_db_def symmetric_adjacency_def edges_distinct_same_edges)
  then show ?thesis
    using Some assms snapshot_good [OF assms]
    by (simp add: update_node_def Let_def good_instance_db)
qed

lemma delete_node_good:
  assumes "good_instance g"
  shows "good_instance (snd (delete_node R key g))"
proof (cases "map_of (nodes (db g)) key")
  case None
  then show ?thesis using assms by (simp add: delete_node_def)
next
  case (Some d)
  have g: "good_db (db g)"
    using assms by (simp add: good_instance_def)
  from delete_node_nodes [OF _ _ Some] g obtain ns' where
    r: "unlink_all key (map fst (edges d)) (nodes (db g)) = (None, ns')"
      "symmetric_adjacency (AList.delete key ns')" "edges_distinct (AList.delete key ns')"
    by (auto simp: good_db_def)
  have "good_db \<lparr>nodes = AList.delete key ns', indexes = ix\<rparr>" for ix
    using r by (simp add: good_db_def)
  then show ?thesis
    using Some r(1) snapshot_good [OF assms]
    by (simp add: delete_node_def Let_def good_instance_db)
qed

lemma add_edge_good:
  assumes "good_instance g"
  shows "good_instance (snd (add_edge R key1 key2 label weight g))"
proof -
  have g: "good_db (db g)"
    using assms by (simp add: good_instance_def)
  have "good_db ((db g)\<lparr>nodes := set_edge key2 key1 p (set_edge key1 key2 p (nodes (db g)))\<rparr>)"
    if "has_key (nodes (db g)) key1" "has_key (nodes (db g)) key2" for p
    using g that by (simp add: good_db_def symmetric_set_both edges_distinct_set_edge)
  then show ?thesis
    using assms snapshot_good [OF assms]
    by (auto simp: add_edge_def Let_def good_instance_db)
qed

lemma delete_edge_good:
  assumes "good_instance g"
  shows "good_instance (snd (delete_edge key1 key2 g))"
proof -
  have g: "good_db (db g)"
    using assms by (simp add: good_instance_def)
  have one: "good_db ((db g)\<lparr>nodes := del_edge key1 key2 (nodes (db g))\<rparr>)"
    if "\<not> has_edge (del_edge key1 key2 (nodes (db g))) key2 key1"
      "has_edge (nodes (db g)) key1 key2"
  proof -
    have "edge_record (nodes (db g)) key2 key1 \<noteq> None"
      using g that(2) by (metis good_db_def symmetric_adjacency_def has_edge_record)
    with that(1) have "key1 = key2"
      by (auto simp: has_edge_record edge_record_del_edge split: if_splits)
    then show ?thesis
      using g by (simp add: good_db_def symmetric_del_loop edges_distinct_del_edge)
  qed
  have two: "good_db ((db g)\<lparr>nodes := del_edge key2 key1 (del_edge key1 key2 (nodes (db g)))\<rparr>)"
    using g by (simp add: good_db_def symmetric_del_both edges_distinct_del_edge)
  show ?thesis
    using assms snapshot_good [OF assms] one two
    by (auto simp: delete_edge_def Let_def good_instance_db)
qed

lemma good_db_indexes [simp]: "good_db (d\<lparr>indexes := ix\<rparr>) = good_db d"
  by (simp add: good_db_def)

lemma apply_op_good:
  assumes "good_instance g"
    and "\<And>new_id val. c = AddNode new_id val \<Longrightarrow> \<not> has_key (nodes (db g)) new_id"
  shows "good_instance (snd (apply_op R c g))"
proof (cases c)
  case (AddNode new_id val)
  then show ?thesis using assms add_node_good by simp
next
  case (UpdateNode key val)
  then show ?thesis using assms update_node_good by simp
next
  case (DeleteNode key)
  then show ?thesis using assms delete_node_good by simp
next
  case (AddEdge key1 key2 label weight)
  then show ?thesis using assms add_edge_good by simp
next
  case (DeleteEdge key1 key2)
  then show ?thesis using assms delete_edge_good by simp
next
  case (CreateIndex attribute)
  then show ?thesis
    using assms(1) by (auto simp: create_index_def Let_def good_instance_def)
next
  case (DropIndex attribute)
  then show ?thesis
    using assms(1) by (auto simp: drop_index_def good_instance_def)
next
  case Begin
  then show ?thesis
    using assms(1) by (auto simp: begin_transaction_def good_instance_def)
next
  case Commit
  then show ?thesis
    using assms(1)
    by (auto simp: commit_transaction_def good_instance_def list_all_iff dest: in_set_butlastD)
next
  case Rollback
  then show ?thesis
    using assms(1)
    by (auto simp: rollback_transaction_def good_instance_def list_all_iff
        dest: in_set_butlastD)
next
  case Stop
  then show ?thesis
    using assms(1) by (auto simp: stop_transaction_def good_instance_def)
qed

lemma edge_record_merge_node: "edge_record (merge_node k v ns) a b = edge_record ns a b"
proof (cases "map_of ns k")
  case None
  then have "edge_record ns k b = None"
    by (simp add: edge_record_def)
  with None show ?thesis
    by (simp add: merge_node_def edge_record_new_node)
next
  case (Some d)
  then show ?thesis
    by (simp add: merge_node_def edge_record_same_edges)
qed

lemma has_key_merge_node: "has_key (merge_node k v ns) a \<longleftrightarrow> a = k \<or> has_key ns a"
  by (auto simp: merge_node_def has_key_def update_conv' split: option.splits)

lemma edges_distinct_merge_node: "edges_distinct ns \<Longrightarrow> edges_distinct (merge_node k v ns)"
  by (auto simp: merge_node_def edges_distinct_new_node edges_distinct_same_edges
      split: option.splits)

lemma merge_nodes_props:
  "edge_record (merge_nodes vs ns) a b = edge_record ns a b"
  "has_key (merge_nodes vs ns) a \<longleftrightarrow> a \<in> fst ` set vs \<or> has_key ns a"
  "edges_distinct ns \<Longrightarrow> edges_distinct (merge_nodes vs ns)"
proof -
  have "edge_record (merge_nodes vs ns) a b = edge_record ns a b
        \<and> (has_key (merge_nodes vs ns) a \<longleftrightarrow> a \<in> fst ` set vs \<or> has_key ns a)
        \<and> (edges_distinct ns \<longrightarrow> edges_distinct (merge_nodes vs ns))"
  proof (induction vs arbitrary: ns)
    case Nil
    then show ?case by (simp add: merge_nodes_def)
  next
    case (Cons x vs)
    obtain k v es where x: "x = (k, v, es)"
      by (cases x) auto
    have step: "merge_nodes (x # vs) ns = merge_nodes vs (merge_node k v ns)"
      by (simp add: merge_nodes_def x)
    show ?case
      unfolding step
      using Cons.IH [of "merge_node k v ns"]
      by (auto simp: x edge_record_merge_node has_key_merge_node edges_distinct_merge_node)
  qed
  then show "edge_record (merge_nodes vs ns) a b = edge_record ns a b"
    and "has_key (merge_nodes vs ns) a \<longleftrightarrow> a \<in> fst ` set vs \<or> has_key ns a"
    and "edges_distinct ns \<Longrightarrow> edges_distinct (merge_nodes vs ns)"
    by blast+
qed

lemma has_key_merge_edge [simp]: "has_key (merge_edge k t p ns) a = has_key ns a"
  by (simp add: merge_edge_def)

lemma merge_edge_good:
  assumes "symmetric_adjacency ns" "edges_distinct ns" "has_key ns k"
  shows "symmetric_adjacency (merge_edge k t p ns) \<and> edges_distinct (merge_edge k t p ns)"
  using assms
  by (simp add: merge_edge_def symmetric_set_both edges_distinct_set_edge)

lemma merge_edge_list_good:
  assumes "symmetric_adjacency ns" "edges_distinct ns" "has_key ns k"
  shows "symmetric_adjacency (fold (\<lambda>(t, p) acc. merge_edge k t p acc) es ns)
       \<and> edges_distinct (fold (\<lambda>(t, p) acc. merge_edge k t p acc) es ns)
       \<and> (\<forall>a. has_key (fold (\<lambda>(t, p) acc. merge_edge k t p acc) es ns) a = has_key ns a)"
  using assms
proof (induction es arbitrary: ns)
  case Nil
  then show ?case by simp
next
  case (Cons e es)
  obtain t p where e: "e = (t, p)"
    by (cases e) auto
  have g: "symmetric_adjacency (merge_edge k t p ns)" "edges_distinct (merge_edge k t p ns)"
    using merge_edge_good [OF Cons.prems] by blast+
  have "has_key (merge_edge k t p ns) k"
    using Cons.prems(3) by simp
  from Cons.IH [OF g this] show ?case
    by (simp add: e)
qed

lemma merge_edges_good:
  assumes "symmetric_adjacency ns" "edges_distinct ns" "\<forall>x \<in> set vs. has_key ns (fst x)"
  shows "symmetric_adjacency (merge_edges vs ns) \<and> edges_distinct (merge_edges vs ns)"
  using assms
proof (induction vs arbitrary: ns)
  case Nil
  then show ?case by (simp add: merge_edges_def)
next
  case (Cons x vs)
  obtain k v es where x: "x = (k, v, es)"
    by (cases x) auto
  let ?ns1 = "fold (\<lambda>(t, p) acc. merge_edge k t p acc) es ns"
  have k: "has_key ns k"
    using Cons.prems(3) by (simp add: x)
  have g: "symmetric_adjacency ?ns1" "edges_distinct ?ns1"
    and keys: "\<forall>a. has_key ?ns1 a = has_key ns a"
    using merge_edge_list_good [OF Cons.prems(1,2) k] by blast+
  have "\<forall>y \<in> set vs. has_key ?ns1 (fst y)"
    using Cons.prems(3) keys by simp
  from Cons.IH [OF g this] show ?case
    by (simp add: merge_edges_def x)
qed

lemma validate_import_ids:
  "validate_import R imp = Inr vs \<Longrightarrow> fst ` set vs = fst ` set imp"
proof (induction R imp arbitrary: vs rule: validate_import.induct)
  case (1 R)
  then show ?case by simp
next
  case (2 R node_id rest)
  then show ?case by simp
next
  case (3 R node_id val es rest)
  from "3.prems" obtain ws where ws: "validate_import R rest = Inr ws"
    and vs: "vs = (node_id, val, valid_edges R es) # ws"
    by (auto split: sum.splits)
  have "fst ` set ws = fst ` set rest"
    using "3.IH" ws by simp
  then show ?case
    unfolding vs by simp
qed

lemma import_merge_good:
  assumes "good_db d" "import_merge R imp ixs d = Inr d'"
  shows "good_db d'"
proof -
  from assms(2) obtain vs where vs: "validate_import R imp = Inr vs"
    and d': "d' = \<lparr>nodes = merge_edges vs (merge_nodes vs (nodes d)),
                   indexes = merge_indexes ixs (indexes d)\<rparr>"
    by (auto simp: import_merge_def split: sum.splits)
  have "symmetric_adjacency (merge_nodes vs (nodes d))"
    using assms(1) by (simp add: good_db_def symmetric_adjacency_def merge_nodes_props(1))
  moreover have "edges_distinct (merge_nodes vs (nodes d))"
    using assms(1) by (simp add: good_db_def merge_nodes_props(3))
  moreover have "\<forall>x \<in> set vs. has_key (merge_nodes vs (nodes d)) (fst x)"
    by (simp add: merge_nodes_props(2))
  ultimately show ?thesis
    unfolding d' using merge_edges_good by (simp add: good_db_def)
qed

lemma exec_command_ok:
  assumes "session_ok s" "fresh_id c s"
  shows "session_ok (exec_command R c s)"
proof (cases c)
  case (Call c1)
  obtain err g1 where r: "apply_op R c1 (active_db_instance s) = (err, g1)"
    by (cases "apply_op R c1 (active_db_instance s)") auto
  have "good_instance (snd (apply_op R c1 (active_db_instance s)))"
    using assms Call by (intro apply_op_good) (auto simp: session_ok_def)
  then have g: "good_instance g1"
    by (simp add: r)
  then have "good_db (db g1)"
    by (simp add: good_instance_def)
  with g assms(1) show ?thesis
    by (simp add: Call r session_ok_def)
next
  case (ImportMerge imp ixs)
  show ?thesis
  proof (cases "import_merge R imp ixs (stored s)")
    case (Inl e)
    then show ?thesis using assms(1) by (simp add: ImportMerge)
  next
    case (Inr d)
    have "good_db d"
      using import_merge_good [OF _ Inr] assms(1) by (simp add: session_ok_def)
    then show ?thesis
      by (simp add: ImportMerge Inr session_ok_def good_instance_def)
  qed
qed

lemma exec_ok: "session_ok s \<Longrightarrow> fresh_ids R cmds s \<Longrightarrow> session_ok (exec R cmds s)"
  by (induction cmds arbitrary: s) (simp_all add: exec_command_ok)




end
